theory Spec2Isabelle
  imports
    Main
    "HOL-Library.Char_ord"
    "HOL-Library.List_Lexorder"
    "HOL-Library.Product_Lexorder"
    "HOL-Library.Sublist"
    "HOL-Library.Multiset"
begin

section \<open>Python strings\<close>

text \<open>
  A Python \<open>str\<close> is modelled by the list of its UTF-8 bytes (\<open>string\<close>). On ASCII text
  a byte is a code point. The order of \<open>string\<close> (lexicographic on bytes) is Python's
  order on \<open>str\<close> (lexicographic on code points), since UTF-8 keeps the order.
\<close>

text \<open>
  The code points for which \<open>str.isspace\<close> holds, in UTF-8: the ASCII ones
  (\<open>0x09\<close>-\<open>0x0D\<close>, \<open>0x1C\<close>-\<open>0x20\<close>), then U+0085, U+00A0, U+1680,
  U+2000-U+200A, U+2028, U+2029, U+202F, U+205F and U+3000.
\<close>

definition whitespace :: "string list" where
  "whitespace =
     [[CHR 0x09], [CHR 0x0A], [CHR 0x0B], [CHR 0x0C], [CHR 0x0D],
      [CHR 0x1C], [CHR 0x1D], [CHR 0x1E], [CHR 0x1F], [CHR 0x20],
      [CHR 0xC2, CHR 0x85], [CHR 0xC2, CHR 0xA0],
      [CHR 0xE1, CHR 0x9A, CHR 0x80],
      [CHR 0xE2, CHR 0x80, CHR 0x80], [CHR 0xE2, CHR 0x80, CHR 0x81],
      [CHR 0xE2, CHR 0x80, CHR 0x82], [CHR 0xE2, CHR 0x80, CHR 0x83],
      [CHR 0xE2, CHR 0x80, CHR 0x84], [CHR 0xE2, CHR 0x80, CHR 0x85],
      [CHR 0xE2, CHR 0x80, CHR 0x86], [CHR 0xE2, CHR 0x80, CHR 0x87],
      [CHR 0xE2, CHR 0x80, CHR 0x88], [CHR 0xE2, CHR 0x80, CHR 0x89],
      [CHR 0xE2, CHR 0x80, CHR 0x8A],
      [CHR 0xE2, CHR 0x80, CHR 0xA8], [CHR 0xE2, CHR 0x80, CHR 0xA9],
      [CHR 0xE2, CHR 0x80, CHR 0xAF], [CHR 0xE2, CHR 0x81, CHR 0x9F],
      [CHR 0xE3, CHR 0x80, CHR 0x80]]"

text \<open>\<open>leading seqs s\<close>: the first of \<open>seqs\<close> (non-empty) that \<open>s\<close> starts with.\<close>

definition leading :: "string list \<Rightarrow> string \<Rightarrow> string option" where
  "leading seqs s = find (\<lambda>w. w \<noteq> [] \<and> prefix w s) seqs"

function drop_leading :: "string list \<Rightarrow> string \<Rightarrow> string" where
  "drop_leading seqs s =
     (case leading seqs s of
        None \<Rightarrow> s
      | Some w \<Rightarrow> drop_leading seqs (drop (length w) s))"
  by pat_completeness auto
termination
proof (relation "measure (\<lambda>(seqs, s). length s)")
  show "wf (measure (\<lambda>(seqs, s). length s))" by simp
next
  fix seqs :: "string list" and s w :: string
  assume "leading seqs s = Some w"
  then have "w \<noteq> []" and "prefix w s"
    by (auto simp: leading_def dest: find_Some_iff [THEN iffD1])
  then have "s \<noteq> []" by auto
  with \<open>w \<noteq> []\<close> show "((seqs, drop (length w) s), (seqs, s)) \<in> measure (\<lambda>(seqs, s). length s)"
    by simp
qed

declare drop_leading.simps [simp del]

text \<open>\<open>str.lstrip()\<close>, \<open>str.rstrip()\<close> and \<open>str.strip()\<close> with no argument.\<close>

definition lstrip :: "string \<Rightarrow> string" where
  "lstrip s = drop_leading whitespace s"

definition rstrip :: "string \<Rightarrow> string" where
  "rstrip s = rev (drop_leading (map rev whitespace) (rev s))"

definition strip :: "string \<Rightarrow> string" where
  "strip s = rstrip (lstrip s)"

text \<open>\<open>sep.join(xs)\<close>, \<open>s.split(c)\<close> for a one-character separator, \<open>s.replace(c, "")\<close>.\<close>

fun join :: "string \<Rightarrow> string list \<Rightarrow> string" where
  "join sep [] = []"
| "join sep [x] = x"
| "join sep (x # y # ys) = x @ sep @ join sep (y # ys)"

fun split_char :: "char \<Rightarrow> string \<Rightarrow> string list" where
  "split_char c [] = [[]]"
| "split_char c (x # xs) =
     (if x = c then [] # split_char c xs
      else (case split_char c xs of
              [] \<Rightarrow> [[x]]
            | p # ps \<Rightarrow> (x # p) # ps))"

definition remove_char :: "char \<Rightarrow> string \<Rightarrow> string" where
  "remove_char c s = filter (\<lambda>x. x \<noteq> c) s"

text \<open>\<open>str.lower()\<close>: exact on ASCII; a byte of a non-ASCII character is left as it is.\<close>

definition lower_char :: "char \<Rightarrow> char" where
  "lower_char c =
     (if CHR ''A'' \<le> c \<and> c \<le> CHR ''Z'' then char_of (of_char c + (32::nat)) else c)"

definition lower :: "string \<Rightarrow> string" where
  "lower s = map lower_char s"

definition is_alpha :: "char \<Rightarrow> bool" where
  "is_alpha c \<longleftrightarrow>
     (CHR ''a'' \<le> c \<and> c \<le> CHR ''z'') \<or> (CHR ''A'' \<le> c \<and> c \<le> CHR ''Z'')"

definition is_digit :: "char \<Rightarrow> bool" where
  "is_digit c \<longleftrightarrow> CHR ''0'' \<le> c \<and> c \<le> CHR ''9''"

section \<open>Errors\<close>

text \<open>
  The exceptions that cross the functions modelled here. \<open>RequestException\<close> stands for
  every failure of the HTTP transport (\<open>requests\<close>), \<open>ValueError\<close> for a parse failure
  (\<open>urlsplit\<close>, \<open>datetime\<close>), \<open>OSError\<close> for a failure of the file system.
\<close>

datatype error = RequestException | ValueError | OSError

section \<open>The library functions of \<open>urllib.parse\<close>\<close>

text \<open>
  \<open>urlsplit\<close>, \<open>urlunsplit\<close>, \<open>quote\<close> and \<open>unquote\<close> are Python's, not the repository's;
  they are modelled after CPython 3.13. Two checks of \<open>urlsplit\<close> are outside the model:
  the validation of a bracketed host (\<open>[...]\<close>, by \<open>ipaddress\<close>) and the NFKC check of a
  non-ASCII authority; both can only turn a result into a \<open>ValueError\<close>. The model is exact
  on a URL whose authority is ASCII and has no bracket.
\<close>

record SplitResult =
  scheme :: string
  netloc :: string
  path :: string
  query :: string
  fragment :: string

definition scheme_chars :: "char \<Rightarrow> bool" where
  "scheme_chars c \<longleftrightarrow> is_alpha c \<or> is_digit c \<or> c \<in> set ''+-.''"

text \<open>\<open>url.find(c)\<close> as the text before the first \<open>c\<close> and the text after it, when there is one.\<close>

fun partition_at :: "char \<Rightarrow> string \<Rightarrow> (string \<times> string) option" where
  "partition_at c [] = None"
| "partition_at c (x # xs) =
     (if x = c then Some ([], xs)
      else (case partition_at c xs of
              None \<Rightarrow> None
            | Some (a, b) \<Rightarrow> Some (x # a, b)))"

text \<open>\<open>if c in url: url, rest = url.split(c, 1)\<close>, with \<open>rest\<close> empty otherwise.\<close>

definition split_once :: "char \<Rightarrow> string \<Rightarrow> string \<times> string" where
  "split_once c s = (case partition_at c s of None \<Rightarrow> (s, []) | Some (a, b) \<Rightarrow> (a, b))"

text \<open>\<open>_splitnetloc(url, 2)\<close>: the authority runs to the first of \<open>/\<close>, \<open>?\<close>, \<open>#\<close>.\<close>

definition splitnetloc :: "string \<Rightarrow> string \<times> string" where
  "splitnetloc url =
     (let rest = drop 2 url;
          is_delim = (\<lambda>c. c \<in> set ''/?#'')
      in (takeWhile (\<lambda>c. \<not> is_delim c) rest, dropWhile (\<lambda>c. \<not> is_delim c) rest))"

definition urlsplit :: "string \<Rightarrow> error + SplitResult" where
  "urlsplit url0 =
     (let url1 = dropWhile (\<lambda>c. c \<le> CHR 0x20) url0;
          url2 = remove_char (CHR 0x0A) (remove_char (CHR 0x0D) (remove_char (CHR 0x09) url1));
          (scheme, url3) =
            (case partition_at CHR '':'' url2 of
               None \<Rightarrow> ([], url2)
             | Some (pre, post) \<Rightarrow>
                 if pre \<noteq> [] \<and> is_alpha (hd pre) \<and> list_all scheme_chars pre
                 then (lower pre, post) else ([], url2));
          (netloc, url4) = (if take 2 url3 = ''//'' then splitnetloc url3 else ([], url3))
      in if (CHR ''['' \<in> set netloc \<and> CHR '']'' \<notin> set netloc)
            \<or> (CHR '']'' \<in> set netloc \<and> CHR ''['' \<notin> set netloc)
         then Inl ValueError
         else
           (let (url5, fragment) = split_once CHR ''#'' url4;
                (url6, query) = split_once CHR ''?'' url5
            in Inr \<lparr>scheme = scheme, netloc = netloc, path = url6, query = query,
                      fragment = fragment\<rparr>))"

definition uses_netloc :: "string list" where
  "uses_netloc =
     ['''', ''ftp'', ''http'', ''gopher'', ''nntp'', ''telnet'', ''imap'', ''wais'', ''file'',
      ''mms'', ''https'', ''shttp'', ''snews'', ''prospero'', ''rtsp'', ''rtsps'', ''rtspu'',
      ''rsync'', ''svn'', ''svn+ssh'', ''sftp'', ''nfs'', ''git'', ''git+ssh'', ''ws'', ''wss'',
      ''itms-services'']"

definition urlunsplit :: "SplitResult \<Rightarrow> string" where
  "urlunsplit p =
     (let url = path p;
          url1 =
            (if netloc p \<noteq> [] then
               ''//'' @ netloc p @ (if url \<noteq> [] \<and> take 1 url \<noteq> ''/'' then ''/'' @ url else url)
             else if take 2 url = ''//'' then ''//'' @ url
             else if scheme p \<noteq> [] \<and> scheme p \<in> set uses_netloc
                     \<and> (url = [] \<or> take 1 url = ''/'') then ''//'' @ url
             else url);
          url2 = (if scheme p \<noteq> [] then scheme p @ '':'' @ url1 else url1);
          url3 = (if query p \<noteq> [] then url2 @ ''?'' @ query p else url2)
      in if fragment p \<noteq> [] then url3 @ ''#'' @ fragment p else url3)"

text \<open>Hexadecimal digits, for \<open>%XX\<close>.\<close>

definition hex_value :: "char \<Rightarrow> nat option" where
  "hex_value c =
     (if is_digit c then Some (of_char c - 48)
      else if CHR ''a'' \<le> c \<and> c \<le> CHR ''f'' then Some (of_char c - 87)
      else if CHR ''A'' \<le> c \<and> c \<le> CHR ''F'' then Some (of_char c - 55)
      else None)"

definition hex_digit :: "nat \<Rightarrow> char" where
  "hex_digit n = ''0123456789ABCDEF'' ! (n mod 16)"

text \<open>\<open>unquote_to_bytes\<close>: \<open>%\<close> and two hexadecimal digits are one byte; any other \<open>%\<close> stays.\<close>

fun unquote_to_bytes :: "string \<Rightarrow> string" where
  "unquote_to_bytes (c # a # b # rest) =
     (if c = CHR ''%'' then
        (case (hex_value a, hex_value b) of
           (Some h, Some l) \<Rightarrow> char_of (16 * h + l) # unquote_to_bytes rest
         | _ \<Rightarrow> c # unquote_to_bytes (a # b # rest))
      else c # unquote_to_bytes (a # b # rest))"
| "unquote_to_bytes s = s"

text \<open>
  \<open>bytes.decode("utf-8", "replace")\<close>, read again as UTF-8: a well-formed sequence is kept,
  an ill-formed one becomes U+FFFD (\<open>EF BF BD\<close>), with the extent of each error as CPython's
  decoder reports it (the lead byte and the continuation bytes accepted so far).
\<close>

definition replacement :: string where
  "replacement = [CHR 0xEF, CHR 0xBF, CHR 0xBD]"

definition is_cont :: "char \<Rightarrow> bool" where
  "is_cont c \<longleftrightarrow> CHR 0x80 \<le> c \<and> c \<le> CHR 0xBF"

text \<open>The second byte of a three-byte and of a four-byte sequence, after the lead byte \<open>c\<close>.\<close>

definition second3 :: "char \<Rightarrow> char \<Rightarrow> bool" where
  "second3 c c2 \<longleftrightarrow> is_cont c2 \<and> \<not> (if c2 < CHR 0xA0 then c = CHR 0xE0 else c = CHR 0xED)"

definition second4 :: "char \<Rightarrow> char \<Rightarrow> bool" where
  "second4 c c2 \<longleftrightarrow> is_cont c2 \<and> \<not> (if c2 < CHR 0x90 then c = CHR 0xF0 else c = CHR 0xF4)"

fun decode_replace :: "string \<Rightarrow> string" where
  "decode_replace [] = []"
| "decode_replace (c # cs) =
     (if c < CHR 0x80 then c # decode_replace cs
      else if c < CHR 0xC2 then replacement @ decode_replace cs
      else if c < CHR 0xE0 then
        (case cs of
           [] \<Rightarrow> replacement
         | c2 # r2 \<Rightarrow>
             if is_cont c2 then c # c2 # decode_replace r2
             else replacement @ decode_replace cs)
      else if c < CHR 0xF0 then
        (case cs of
           [] \<Rightarrow> replacement
         | c2 # r2 \<Rightarrow>
             if \<not> second3 c c2 then replacement @ decode_replace cs
             else (case r2 of
                     [] \<Rightarrow> replacement
                   | c3 # r3 \<Rightarrow>
                       if is_cont c3 then c # c2 # c3 # decode_replace r3
                       else replacement @ decode_replace r2))
      else if c < CHR 0xF5 then
        (case cs of
           [] \<Rightarrow> replacement
         | c2 # r2 \<Rightarrow>
             if \<not> second4 c c2 then replacement @ decode_replace cs
             else (case r2 of
                     [] \<Rightarrow> replacement
                   | c3 # r3 \<Rightarrow>
                       if \<not> is_cont c3 then replacement @ decode_replace r2
                       else (case r3 of
                               [] \<Rightarrow> replacement
                             | c4 # r4 \<Rightarrow>
                                 if is_cont c4 then c # c2 # c3 # c4 # decode_replace r4
                                 else replacement @ decode_replace r3)))
      else replacement @ decode_replace cs)"

text \<open>
  \<open>unquote\<close>: the text is cut into its maximal ASCII runs and the runs between them; each
  ASCII run is percent-decoded and the bytes decoded as UTF-8 on their own; the rest is kept.
\<close>

function unquote :: "string \<Rightarrow> string" where
  "unquote [] = []"
| "unquote (c # cs) =
     (if c < CHR 0x80 then
        decode_replace (unquote_to_bytes (takeWhile (\<lambda>x. x < CHR 0x80) (c # cs)))
          @ unquote (dropWhile (\<lambda>x. x < CHR 0x80) (c # cs))
      else takeWhile (\<lambda>x. \<not> x < CHR 0x80) (c # cs)
          @ unquote (dropWhile (\<lambda>x. \<not> x < CHR 0x80) (c # cs)))"
  by pat_completeness auto
termination
  by (relation "measure length") (auto simp: length_dropWhile_le less_Suc_eq_le)

text \<open>\<open>quote(s, safe)\<close>: every byte that is not unreserved nor in \<open>safe\<close> becomes \<open>%XX\<close>.\<close>

definition always_safe :: "char \<Rightarrow> bool" where
  "always_safe c \<longleftrightarrow> is_alpha c \<or> is_digit c \<or> c \<in> set ''_.-~''"

definition quote_byte :: "string \<Rightarrow> char \<Rightarrow> string" where
  "quote_byte safe c =
     (if always_safe c \<or> (c < CHR 0x80 \<and> c \<in> set safe) then [c]
      else [CHR ''%'', hex_digit (of_char c div 16), hex_digit (of_char c mod 16)])"

definition quote :: "string \<Rightarrow> string \<Rightarrow> string" where
  "quote s safe = concat (map (quote_byte safe) s)"

section \<open>The URL normalizer (\<open>audit_collection.py\<close>)\<close>

definition normalize_url :: "string \<Rightarrow> error + string" where
  "normalize_url url =
     (case urlsplit (strip url) of
        Inl e \<Rightarrow> Inl e
      | Inr parts \<Rightarrow>
          Inr (urlunsplit
            \<lparr>scheme = lower (scheme parts),
             netloc = lower (netloc parts),
             path = quote (unquote (path parts)) (''/~%:@!$&'' @ [CHR 0x27] @ ''()*+,;=''),
             query = quote (unquote (query parts)) ''=&%'',
             fragment = quote (unquote (fragment parts)) ''''\<rparr>))"





section \<open>Calendar dates\<close>

text \<open>
  A \<open>datetime.date\<close> is its triple (year, month, day); Python compares dates as these
  triples, which is the lexicographic order of the product type.
\<close>

type_synonym date = "int \<times> int \<times> int"

definition is_leap :: "int \<Rightarrow> bool" where
  "is_leap y \<longleftrightarrow> y mod 4 = 0 \<and> (y mod 100 \<noteq> 0 \<or> y mod 400 = 0)"

definition days_in_month :: "int \<Rightarrow> int \<Rightarrow> int" where
  "days_in_month y m =
     (if m = 2 then (if is_leap y then 29 else 28)
      else if m \<in> {4, 6, 9, 11} then 30 else 31)"

text \<open>The constructor \<open>date(y, m, d)\<close> (and \<open>datetime(y, m, d)\<close>): \<open>ValueError\<close> out of range.\<close>

definition make_date :: "int \<Rightarrow> int \<Rightarrow> int \<Rightarrow> error + date" where
  "make_date y m d =
     (if 1 \<le> y \<and> y \<le> 9999 \<and> 1 \<le> m \<and> m \<le> 12 \<and> 1 \<le> d \<and> d \<le> days_in_month y m
      then Inr (y, m, d) else Inl ValueError)"

definition digits_value :: "string \<Rightarrow> int" where
  "digits_value s = fold (\<lambda>c n. 10 * n + (of_char c - 48)) s 0"

text \<open>
  The date of \<open>datetime.fromisoformat(s)\<close> for a timestamp \<open>YYYY-MM-DD\<close>, alone or followed
  by a time part. The time part is not read here, and the other formats that Python reads
  (such as \<open>YYYYMMDD\<close>) are not either: this parser serves the concrete feeds of the examples
  below, whose timestamps are \<open>YYYY-MM-DDTHH:MM:SS+00:00\<close> with a valid time. The feed walker
  takes its parser as a parameter, and its properties hold for every parser.
\<close>

definition fromisoformat_date :: "string \<Rightarrow> date option" where
  "fromisoformat_date s =
     (case s of
        y1 # y2 # y3 # y4 # s1 # m1 # m2 # s2 # d1 # d2 # rest \<Rightarrow>
          if list_all is_digit [y1, y2, y3, y4, m1, m2, d1, d2]
             \<and> s1 = CHR ''-'' \<and> s2 = CHR ''-''
             \<and> (case rest of [] \<Rightarrow> True | sep # time \<Rightarrow> sep \<in> set ''T '')
          then (case make_date (digits_value [y1, y2, y3, y4]) (digits_value [m1, m2])
                       (digits_value [d1, d2]) of
                  Inl e \<Rightarrow> None
                | Inr dt \<Rightarrow> Some dt)
          else None
      | _ \<Rightarrow> None)"

section \<open>The feed walker (\<open>audit_collection.py\<close>)\<close>

record FeedEntry =
  title :: string
  url :: string
  published :: date
  labels :: "string list"
  content :: string

text \<open>
  One entry of the feed's JSON. A field \<open>x.$t\<close> is \<open>None\<close> when \<open>x\<close> or \<open>$t\<close> is absent or
  null: the source reads it as \<open>(raw.get(x) or {}).get("$t") or ""\<close>.
\<close>

record Link =
  rel :: "string option"
  href :: "string option"

record RawEntry =
  raw_title :: "string option"
  raw_link :: "Link list"
  raw_published :: "string option"
  raw_content :: "string option"
  raw_summary :: "string option"
  raw_category :: "string option list"

text \<open>The payload of one page: \<open>feed.entry\<close>, \<open>None\<close> when \<open>feed\<close> or \<open>entry\<close> is absent.\<close>

record Payload =
  feed_entry :: "RawEntry list option"

definition or_empty :: "string option \<Rightarrow> string" where
  "or_empty v = (case v of None \<Rightarrow> [] | Some s \<Rightarrow> s)"

fun extract_entry_url :: "Link list \<Rightarrow> string option" where
  "extract_entry_url [] = None"
| "extract_entry_url (l # ls) =
     (if rel l = Some ''alternate'' \<and> or_empty (href l) \<noteq> [] then href l
      else extract_entry_url ls)"

definition replace_Z :: "string \<Rightarrow> string" where
  "replace_Z s = concat (map (\<lambda>c. if c = CHR ''Z'' then ''+00:00'' else [c]) s)"

definition entry_labels :: "string option list \<Rightarrow> string list" where
  "entry_labels cats = sort (remdups (filter (\<lambda>t. t \<noteq> []) (map (\<lambda>c. strip (or_empty c)) cats)))"

text \<open>
  The body of the loop over the raw entries of a page: \<open>Inr None\<close> is \<open>continue\<close> (an entry
  with no title, link or timestamp), \<open>Inl\<close> an exception of the timestamp parser or of
  \<open>normalize_url\<close>. The parser \<open>fromiso\<close> is \<open>datetime.fromisoformat(...).date()\<close>.
\<close>

definition parse_entry :: "(string \<Rightarrow> date option) \<Rightarrow> RawEntry \<Rightarrow> error + FeedEntry option" where
  "parse_entry fromiso raw =
     (let title = strip (or_empty (raw_title raw));
          url = extract_entry_url (raw_link raw);
          published_raw = strip (or_empty (raw_published raw))
      in if title = [] \<or> url = None \<or> published_raw = [] then Inr None
         else
           (let content0 = strip (or_empty (raw_content raw));
                content = (if content0 = [] then strip (or_empty (raw_summary raw)) else content0)
            in case fromiso (replace_Z published_raw) of
                 None \<Rightarrow> Inl ValueError
               | Some published_dt \<Rightarrow>
                   (case normalize_url (or_empty url) of
                      Inl e \<Rightarrow> Inl e
                    | Inr u \<Rightarrow>
                        Inr (Some \<lparr>title = title, url = u, published = published_dt,
                                   labels = entry_labels (raw_category raw),
                                   content = content\<rparr>))))"

fun page_entries :: "(string \<Rightarrow> date option) \<Rightarrow> RawEntry list \<Rightarrow> error + FeedEntry list" where
  "page_entries fromiso [] = Inr []"
| "page_entries fromiso (raw # raws) =
     (case parse_entry fromiso raw of
        Inl e \<Rightarrow> Inl e
      | Inr None \<Rightarrow> page_entries fromiso raws
      | Inr (Some x) \<Rightarrow>
          (case page_entries fromiso raws of
             Inl e \<Rightarrow> Inl e
           | Inr xs \<Rightarrow> Inr (x # xs)))"

text \<open>\<open>min((e.published for e in page_entries), default=None)\<close>.\<close>

fun oldest_on_page :: "FeedEntry list \<Rightarrow> date option" where
  "oldest_on_page [] = None"
| "oldest_on_page (e # es) = Some (fold min (map published es) (published e))"

text \<open>
  One iteration of \<open>while True\<close>, after the fetch: the entries it yields, and whether the
  walk returns (\<open>Stop\<close>), goes on to the next page (\<open>Continue\<close>) or raises (\<open>Fail\<close>).
\<close>

datatype page_result = Stop "FeedEntry list" | Continue "FeedEntry list" | Fail error

definition process_page ::
  "(string \<Rightarrow> date option) \<Rightarrow> date \<Rightarrow> date \<Rightarrow> Payload \<Rightarrow> page_result" where
  "process_page fromiso start_date end_date payload =
     (case feed_entry payload of
        None \<Rightarrow> Stop []
      | Some entries \<Rightarrow>
          if entries = [] then Stop []
          else
            (case page_entries fromiso entries of
               Inl e \<Rightarrow> Fail e
             | Inr pes \<Rightarrow>
                 (let ys = filter (\<lambda>e. start_date \<le> published e \<and> published e \<le> end_date) pes
                  in case oldest_on_page pes of
                       None \<Rightarrow> Stop ys
                     | Some oldest \<Rightarrow> if oldest < start_date then Stop ys else Continue ys)))"

text \<open>
  The walk as its trace: the offsets fetched, in order; the entries yielded, in order; and
  how it ended. The loop has no bound of its own, so the model takes fuel (a number of
  iterations); \<open>Running\<close> says that the fuel ran out with the loop still going.
  \<open>fetch i n\<close> is \<open>_fetch_feed_page(base_url, i, n, session)\<close>; its exceptions are \<open>Inl\<close>.
  The delay between pages (\<open>time.sleep\<close>) changes no value and is left out.
\<close>

datatype outcome = Returned | Raised error | Running

record walk =
  fetched :: "int list"
  yielded :: "FeedEntry list"
  outcome :: outcome

fun walk_from ::
  "(string \<Rightarrow> date option) \<Rightarrow> (int \<Rightarrow> int \<Rightarrow> error + Payload) \<Rightarrow> date \<Rightarrow> date \<Rightarrow> int
     \<Rightarrow> nat \<Rightarrow> int \<Rightarrow> walk" where
  "walk_from fromiso fetch start_date end_date max_results 0 start_index =
     \<lparr>fetched = [], yielded = [], outcome = Running\<rparr>"
| "walk_from fromiso fetch start_date end_date max_results (Suc fuel) start_index =
     (case fetch start_index max_results of
        Inl e \<Rightarrow> \<lparr>fetched = [start_index], yielded = [], outcome = Raised e\<rparr>
      | Inr payload \<Rightarrow>
          (case process_page fromiso start_date end_date payload of
             Fail e \<Rightarrow> \<lparr>fetched = [start_index], yielded = [], outcome = Raised e\<rparr>
           | Stop ys \<Rightarrow> \<lparr>fetched = [start_index], yielded = ys, outcome = Returned\<rparr>
           | Continue ys \<Rightarrow>
               (let r = walk_from fromiso fetch start_date end_date max_results fuel
                          (start_index + max_results)
                in r\<lparr>fetched := start_index # fetched r, yielded := ys @ yielded r\<rparr>)))"

definition iter_recent_posts ::
  "(string \<Rightarrow> date option) \<Rightarrow> (int \<Rightarrow> int \<Rightarrow> error + Payload) \<Rightarrow> date \<Rightarrow> date \<Rightarrow> int
     \<Rightarrow> nat \<Rightarrow> walk" where
  "iter_recent_posts fromiso fetch start_date end_date max_results fuel =
     walk_from fromiso fetch start_date end_date max_results fuel 1"

text \<open>
  Whether the iteration at offset \<open>i\<close> ends the walk (by \<open>return\<close> or by an exception), and
  the number of raw entries the page at offset \<open>i\<close> carries.
\<close>

definition page_ends ::
  "(string \<Rightarrow> date option) \<Rightarrow> (int \<Rightarrow> int \<Rightarrow> error + Payload) \<Rightarrow> date \<Rightarrow> date \<Rightarrow> int
     \<Rightarrow> int \<Rightarrow> bool" where
  "page_ends fromiso fetch start_date end_date max_results i =
     (case fetch i max_results of
        Inl e \<Rightarrow> True
      | Inr payload \<Rightarrow>
          (case process_page fromiso start_date end_date payload of
             Continue ys \<Rightarrow> False
           | _ \<Rightarrow> True))"

definition fetched_entries :: "(int \<Rightarrow> int \<Rightarrow> error + Payload) \<Rightarrow> int \<Rightarrow> int \<Rightarrow> nat" where
  "fetched_entries fetch max_results i =
     (case fetch i max_results of
        Inl e \<Rightarrow> 0
      | Inr payload \<Rightarrow> (case feed_entry payload of None \<Rightarrow> 0 | Some entries \<Rightarrow> length entries))"

subsection \<open>Two concrete feeds\<close>

definition example_raw :: "string \<Rightarrow> string \<Rightarrow> string \<Rightarrow> RawEntry" where
  "example_raw t u p =
     \<lparr>raw_title = Some t,
      raw_link = [\<lparr>rel = Some ''self'', href = Some ''http://e.com/feed''\<rparr>,
                  \<lparr>rel = Some ''alternate'', href = Some u\<rparr>],
      raw_published = Some p,
      raw_content = Some ''body'',
      raw_summary = None,
      raw_category = []\<rparr>"

definition example_post :: "string \<Rightarrow> string \<Rightarrow> date \<Rightarrow> FeedEntry" where
  "example_post t u d = \<lparr>title = t, url = u, published = d, labels = [], content = ''body''\<rparr>"

text \<open>Three pages of two entries, one entry a day from 6 March 2024 down to 1 March.\<close>

definition three_pages :: "int \<Rightarrow> int \<Rightarrow> error + Payload" where
  "three_pages i n =
     (if i = 1 then
        Inr \<lparr>feed_entry = Some
          [example_raw ''p1'' ''http://e.com/1'' ''2024-03-06T08:00:00Z'',
           example_raw ''p2'' ''http://e.com/2'' ''2024-03-05T08:00:00Z'']\<rparr>
      else if i = 3 then
        Inr \<lparr>feed_entry = Some
          [example_raw ''p3'' ''http://e.com/3'' ''2024-03-04T08:00:00Z'',
           example_raw ''p4'' ''http://e.com/4'' ''2024-03-03T08:00:00Z'']\<rparr>
      else if i = 5 then
        Inr \<lparr>feed_entry = Some
          [example_raw ''p5'' ''http://e.com/5'' ''2024-03-02T08:00:00Z'',
           example_raw ''p6'' ''http://e.com/6'' ''2024-03-01T08:00:00Z'']\<rparr>
      else Inr \<lparr>feed_entry = None\<rparr>)"

text \<open>A source that answers every offset with the same page of one entry.\<close>

definition same_page :: "int \<Rightarrow> int \<Rightarrow> error + Payload" where
  "same_page i n =
     Inr \<lparr>feed_entry = Some
       [example_raw ''p1'' ''http://e.com/1'' ''2024-03-06T08:00:00Z'']\<rparr>"
section \<open>The local archive index (\<open>audit_collection.py\<close>)\<close>

text \<open>
  What \<open>local_dir\<close> holds: regular files with their text (as \<open>read_text\<close> decodes it) and
  sub-directories with what they hold in turn. \<open>read_text\<close> on a directory raises an
  \<open>OSError\<close>.
\<close>

datatype fs_entry =
  RegularFile string string
| SubDirectory string "fs_entry list"

fun entry_name :: "fs_entry \<Rightarrow> string" where
  "entry_name (RegularFile name text) = name"
| "entry_name (SubDirectory name children) = name"

text \<open>\<open>local_dir.glob("*.md")\<close>: the direct children whose name ends in \<open>.md\<close>, then \<open>sorted\<close>.\<close>

definition glob_md :: "fs_entry list \<Rightarrow> fs_entry list" where
  "glob_md entries = sort_key entry_name (filter (\<lambda>e. suffix ''.md'' (entry_name e)) entries)"

text \<open>
  The UTF-8 bytes of the link line's start, \<open>- \<close> and the three characters U+94FE, U+63A5,
  U+FF1A.
\<close>

definition link_prefix :: string where
  "link_prefix =
     ''- '' @ [CHR 0xE9, CHR 0x93, CHR 0xBE, CHR 0xE6, CHR 0x8E, CHR 0xA5, CHR 0xEF, CHR 0xBC, CHR 0x9A]"

text \<open>
  \<open>re.search(r"^- ...(.*)$", text, flags=re.M)\<close> and \<open>m.group(1)\<close>: in the first line (lines end
  at \<open>\n\<close>) that starts with \<open>link_prefix\<close>, the rest of the line.
\<close>

definition first_link :: "string \<Rightarrow> string option" where
  "first_link text =
     (case find (prefix link_prefix) (split_char (CHR 0x0A) text) of
        None \<Rightarrow> None
      | Some line \<Rightarrow> Some (drop (length link_prefix) line))"

fun read_files :: "fs_entry list \<Rightarrow> string set \<Rightarrow> error + string set" where
  "read_files [] urls = Inr urls"
| "read_files (SubDirectory name children # rest) urls = Inl OSError"
| "read_files (RegularFile name text # rest) urls =
     (case first_link text of
        None \<Rightarrow> read_files rest urls
      | Some raw \<Rightarrow>
          (let url = strip raw
           in if url = [] then read_files rest urls
              else (case normalize_url url of
                      Inl e \<Rightarrow> Inl e
                    | Inr u \<Rightarrow> read_files rest (insert u urls))))"

definition read_local_urls :: "fs_entry list \<Rightarrow> error + string set" where
  "read_local_urls local_dir = read_files (glob_md local_dir) {}"

text \<open>The URLs a file of text \<open>body\<close> adds to the index (none or one); for the proofs.\<close>

definition file_url :: "string \<Rightarrow> string \<Rightarrow> bool" where
  "file_url body u \<longleftrightarrow>
     (\<exists>raw. first_link body = Some raw \<and> strip raw \<noteq> [] \<and> normalize_url (strip raw) = Inr u)"

text \<open>A directory: a note, an archived article with two link lines, and more.\<close>

definition example_dir :: "fs_entry list" where
  "example_dir =
     [RegularFile ''b.txt'' (link_prefix @ ''http://e.com/b''),
      RegularFile ''a.md''
        (''# T'' @ [CHR 0x0A] @ link_prefix @ '' HTTP://E.com/1 '' @ [CHR 0x0A]
           @ link_prefix @ ''http://e.com/2''),
      SubDirectory ''sub'' [RegularFile ''c.md'' (link_prefix @ ''http://e.com/c'')],
      RegularFile ''e.md'' ''no link'',
      RegularFile ''f.md'' (link_prefix @ ''   '')]"

section \<open>The classifier and the gap reporter (\<open>main\<close> of \<open>audit_collection.py\<close>)\<close>

text \<open>
  A compiled pattern is what its \<open>search\<close> answers on a text: whether it matches, or an
  exception. The patterns that \<open>main\<close> compiles are alternations of escaped keywords; such
  a pattern matches a text when one of the keywords occurs in it.
\<close>

type_synonym pattern = "string \<Rightarrow> error + bool"

fun contains :: "string \<Rightarrow> string \<Rightarrow> bool" where
  "contains k [] = (k = [])"
| "contains k (c # cs) = (prefix k (c # cs) \<or> contains k cs)"

definition keyword_re :: "string list \<Rightarrow> pattern" where
  "keyword_re keywords = (\<lambda>text. Inr (list_ex (\<lambda>k. contains k text) keywords))"

text \<open>\<open>None\<close> when the keyword list is empty, as \<open>title_keyword_re\<close> and \<open>content_keyword_re\<close>.\<close>

definition compile_keywords :: "string list \<Rightarrow> pattern option" where
  "compile_keywords keywords = (if keywords = [] then None else Some (keyword_re keywords))"

text \<open>\<open>r and r.search(text)\<close> for an optional pattern \<open>r\<close>.\<close>

definition search_opt :: "pattern option \<Rightarrow> string \<Rightarrow> error + bool" where
  "search_opt r text = (case r of None \<Rightarrow> Inr False | Some p \<Rightarrow> p text)"

text \<open>The \<open>if\<close>/\<open>elif\<close> chain of the loop in \<open>main\<close>: \<open>Inr True\<close> when the entry is matched.\<close>

definition entry_matches ::
  "string set \<Rightarrow> pattern option \<Rightarrow> pattern option \<Rightarrow> FeedEntry \<Rightarrow> error + bool" where
  "entry_matches include_labels title_keyword_re content_keyword_re entry =
     (if include_labels \<noteq> {} \<and> list_ex (\<lambda>label. label \<in> include_labels) (labels entry)
      then Inr True
      else (case search_opt title_keyword_re (title entry) of
              Inl e \<Rightarrow> Inl e
            | Inr True \<Rightarrow> Inr True
            | Inr False \<Rightarrow> search_opt content_keyword_re (content entry)))"

text \<open>
  The loop of \<open>main\<close> over the entries the walker yields, with the two lists it appends
  to: \<open>matched\<close> and \<open>missing\<close>.
\<close>

fun classify_entries ::
  "string set \<Rightarrow> pattern option \<Rightarrow> pattern option \<Rightarrow> string set \<Rightarrow> FeedEntry list
     \<Rightarrow> FeedEntry list \<times> FeedEntry list \<Rightarrow> error + FeedEntry list \<times> FeedEntry list" where
  "classify_entries include_labels tre cre local_urls [] (matched, missing) =
     Inr (matched, missing)"
| "classify_entries include_labels tre cre local_urls (entry # entries) (matched, missing) =
     (case entry_matches include_labels tre cre entry of
        Inl e \<Rightarrow> Inl e
      | Inr False \<Rightarrow> classify_entries include_labels tre cre local_urls entries (matched, missing)
      | Inr True \<Rightarrow>
          classify_entries include_labels tre cre local_urls entries
            (matched @ [entry],
             if url entry \<notin> local_urls then missing @ [entry] else missing))"

text \<open>\<open>sorted(missing, key=lambda x: (x.published, x.url))\<close>: Python's sort is stable.\<close>

definition sorted_missing :: "FeedEntry list \<Rightarrow> FeedEntry list" where
  "sorted_missing missing = sort_key (\<lambda>x. (published x, url x)) missing"

section \<open>The three renderings (\<open>main\<close> of \<open>audit_collection.py\<close>)\<close>

record summary =
  base_url :: string
  from_date :: date
  to_date :: date
  local_dir :: string
  local_count :: nat
  matched_count :: nat
  missing_count :: nat

text \<open>\<open>str(n)\<close> for an integer, and \<open>date.isoformat()\<close>: \<open>YYYY-MM-DD\<close>, padded with zeros.\<close>

function decimal :: "int \<Rightarrow> string" where
  "decimal n =
     (if n < 0 then CHR ''-'' # decimal (- n)
      else if n < 10 then [char_of (48 + n)]
      else decimal (n div 10) @ [char_of (48 + n mod 10)])"
  by pat_completeness auto
termination
  by (relation "measure (\<lambda>n. if n < 0 then nat (1 - 2 * n) else nat (2 * n))") auto

declare decimal.simps [simp del]

definition zero_pad :: "nat \<Rightarrow> string \<Rightarrow> string" where
  "zero_pad width s = replicate (width - length s) (CHR ''0'') @ s"

definition isoformat :: "date \<Rightarrow> string" where
  "isoformat d =
     (case d of (y, m, dd) \<Rightarrow>
        zero_pad 4 (decimal y) @ ''-'' @ zero_pad 2 (decimal m) @ ''-''
          @ zero_pad 2 (decimal dd))"

subsection \<open>\<open>json.dumps\<close>\<close>

text \<open>
  The values \<open>main\<close> serialises: strings, integers, lists and dictionaries (with their keys
  in insertion order). Strings are written with \<open>ensure_ascii=False\<close>: only the quote, the
  backslash and the control characters below \<open>0x20\<close> are escaped.
\<close>

datatype json = JString string | JInt int | JArray "json list" | JObject "(string \<times> json) list"

definition json_escape_char :: "char \<Rightarrow> string" where
  "json_escape_char c =
     (if c = CHR 0x22 then [CHR 0x5C, CHR 0x22]
      else if c = CHR 0x5C then [CHR 0x5C, CHR 0x5C]
      else if c = CHR 0x0A then [CHR 0x5C, CHR ''n'']
      else if c = CHR 0x0D then [CHR 0x5C, CHR ''r'']
      else if c = CHR 0x09 then [CHR 0x5C, CHR ''t'']
      else if c = CHR 0x08 then [CHR 0x5C, CHR ''b'']
      else if c = CHR 0x0C then [CHR 0x5C, CHR ''f'']
      else if c < CHR 0x20 then
        [CHR 0x5C, CHR ''u'', CHR ''0'', CHR ''0'',
         ''0123456789abcdef'' ! (of_char c div 16), ''0123456789abcdef'' ! (of_char c mod 16)]
      else [c])"

definition json_string :: "string \<Rightarrow> string" where
  "json_string s = [CHR 0x22] @ concat (map json_escape_char s) @ [CHR 0x22]"

text \<open>\<open>json.dumps(v, ensure_ascii=False)\<close>: one line, \<open>", "\<close> between items and \<open>": "\<close> after a key.\<close>

fun dumps :: "json \<Rightarrow> string" where
  "dumps (JString s) = json_string s"
| "dumps (JInt n) = decimal n"
| "dumps (JArray vs) = ''['' @ join '', '' (map dumps vs) @ '']''"
| "dumps (JObject kvs) =
     ''{'' @ join '', '' (map (\<lambda>kv. json_string (fst kv) @ '': '' @ dumps (snd kv)) kvs) @ ''}''"

text \<open>
  \<open>json.dumps(v, ensure_ascii=False, indent=2)\<close>, for a value that starts at nesting depth
  \<open>level\<close>: every item on a line of its own, two spaces deeper; an empty list is \<open>[]\<close> and an
  empty dictionary \<open>{}\<close>.
\<close>

definition newline_indent :: "nat \<Rightarrow> string" where
  "newline_indent level = CHR 0x0A # replicate (2 * level) (CHR '' '')"

fun dumps_indent :: "nat \<Rightarrow> json \<Rightarrow> string" where
  "dumps_indent level (JString s) = json_string s"
| "dumps_indent level (JInt n) = decimal n"
| "dumps_indent level (JArray vs) =
     (if vs = [] then ''[]''
      else ''['' @ newline_indent (Suc level)
           @ join ('','' @ newline_indent (Suc level)) (map (dumps_indent (Suc level)) vs)
           @ newline_indent level @ '']'')"
| "dumps_indent level (JObject kvs) =
     (if kvs = [] then ''{}''
      else ''{'' @ newline_indent (Suc level)
           @ join ('','' @ newline_indent (Suc level))
               (map (\<lambda>kv. json_string (fst kv) @ '': '' @ dumps_indent (Suc level) (snd kv)) kvs)
           @ newline_indent level @ ''}'')"

subsection \<open>\<open>csv.DictWriter\<close>\<close>

text \<open>
  The \<open>excel\<close> dialect: a field that holds a comma, a quote, \<open>\r\<close> or \<open>\n\<close> is put in quotes
  with its quotes doubled; fields are joined by commas; a row ends with \<open>\r\n\<close>.
\<close>

definition csv_field :: "string \<Rightarrow> string" where
  "csv_field s =
     (if list_ex (\<lambda>c. c \<in> set [CHR '','', CHR 0x22, CHR 0x0D, CHR 0x0A]) s
      then [CHR 0x22] @ concat (map (\<lambda>c. if c = CHR 0x22 then [c, c] else [c]) s) @ [CHR 0x22]
      else s)"

definition csv_row :: "string list \<Rightarrow> string" where
  "csv_row cells = join '','' (map csv_field cells) @ [CHR 0x0D, CHR 0x0A]"

subsection \<open>\<open>write_text\<close>, \<open>write_json\<close>, \<open>write_csv\<close>\<close>

definition summary_items :: "summary \<Rightarrow> (string \<times> json) list" where
  "summary_items s =
     [(''base_url'', JString (base_url s)),
      (''from'', JString (isoformat (from_date s))),
      (''to'', JString (isoformat (to_date s))),
      (''local_dir'', JString (local_dir s)),
      (''local_count'', JInt (int (local_count s))),
      (''matched_count'', JInt (int (matched_count s))),
      (''missing_count'', JInt (int (missing_count s)))]"

definition text_row :: "FeedEntry \<Rightarrow> string" where
  "text_row e =
     isoformat (published e) @ [CHR 0x09] @ title e @ [CHR 0x09] @ url e @ [CHR 0x09]
       @ join '','' (labels e) @ [CHR 0x0A]"

definition write_text :: "summary \<Rightarrow> FeedEntry list \<Rightarrow> string" where
  "write_text s missing =
     dumps (JObject (summary_items s)) @ [CHR 0x0A] @ concat (map text_row (sorted_missing missing))"

definition json_row :: "FeedEntry \<Rightarrow> json" where
  "json_row e =
     JObject [(''published'', JString (isoformat (published e))),
              (''title'', JString (title e)),
              (''url'', JString (url e)),
              (''labels'', JArray (map JString (labels e)))]"

definition write_json :: "summary \<Rightarrow> FeedEntry list \<Rightarrow> string" where
  "write_json s missing =
     dumps_indent 0
       (JObject (summary_items s @ [(''missing'', JArray (map json_row (sorted_missing missing)))]))
       @ [CHR 0x0A]"

definition csv_fields :: "FeedEntry \<Rightarrow> string list" where
  "csv_fields e = [isoformat (published e), title e, url e, join '','' (labels e)]"

definition write_csv :: "FeedEntry list \<Rightarrow> string" where
  "write_csv missing =
     csv_row [''published'', ''title'', ''url'', ''labels'']
       @ concat (map (\<lambda>e. csv_row (csv_fields e)) (sorted_missing missing))"

datatype format = Text | Json | Csv

text \<open>What \<open>main\<close> writes to the output, for \<open>--format\<close>.\<close>

definition render :: "format \<Rightarrow> summary \<Rightarrow> FeedEntry list \<Rightarrow> string" where
  "render fmt s missing =
     (case fmt of
        Csv \<Rightarrow> write_csv missing
      | Json \<Rightarrow> write_json s missing
      | Text \<Rightarrow> write_text s missing)"

subsection \<open>\<open>main\<close>\<close>

text \<open>
  The parsed command line; \<open>arg_local\<close> is what the directory \<open>--local-dir\<close> holds, \<open>None\<close>
  when it does not exist. \<open>--output\<close> only names where the text goes and is left out.
\<close>

record args =
  arg_base_url :: string
  arg_from :: date
  arg_to :: date
  arg_local_dir :: string
  arg_local :: "fs_entry list option"
  arg_labels :: "string list"
  arg_title_keywords :: "string list"
  arg_content_keywords :: "string list"
  arg_format :: format

definition make_summary :: "args \<Rightarrow> string set \<Rightarrow> FeedEntry list \<Rightarrow> FeedEntry list \<Rightarrow> summary" where
  "make_summary a local_urls matched missing =
     \<lparr>base_url = arg_base_url a,
      from_date = arg_from a,
      to_date = arg_to a,
      local_dir = arg_local_dir a,
      local_count = card local_urls,
      matched_count = length matched,
      missing_count = length missing\<rparr>"

text \<open>
  A run of \<open>main\<close> that writes to the standard output: the exit code with the text
  written, an exception that ends the process, or (fuel spent) a run that is still fetching
  pages. \<open>http base\<close> is the feed of the
  site at \<open>base\<close>; the walker is called with its default page size, 150.
\<close>

datatype run = Exit int string | Crashed error | Unfinished

definition main ::
  "(string \<Rightarrow> date option) \<Rightarrow> (string \<Rightarrow> int \<Rightarrow> int \<Rightarrow> error + Payload) \<Rightarrow> args \<Rightarrow> nat \<Rightarrow> run" where
  "main fromiso http a fuel =
     (case arg_local a of
        None \<Rightarrow> Exit 2 (''local dir not found: '' @ arg_local_dir a @ [CHR 0x0A])
      | Some dir \<Rightarrow>
          (case read_local_urls dir of
             Inl e \<Rightarrow> Crashed e
           | Inr local_urls \<Rightarrow>
               (let w = iter_recent_posts fromiso (http (arg_base_url a)) (arg_from a) (arg_to a)
                          150 fuel
                in case classify_entries (set (arg_labels a))
                          (compile_keywords (arg_title_keywords a))
                          (compile_keywords (arg_content_keywords a))
                          local_urls (yielded w) ([], []) of
                     Inl e \<Rightarrow> Crashed e
                   | Inr (matched, missing) \<Rightarrow>
                       (case outcome w of
                          Running \<Rightarrow> Unfinished
                        | Raised e \<Rightarrow> Crashed e
                        | Returned \<Rightarrow>
                            Exit 0 (render (arg_format a)
                                      (make_summary a local_urls matched missing) missing)))))"

subsection \<open>Concrete runs\<close>

text \<open>A pattern whose \<open>search\<close> raises on every text.\<close>

definition raising :: pattern where
  "raising = (\<lambda>text. Inl ValueError)"

definition film_post :: FeedEntry where
  "film_post = \<lparr>title = ''Dune'', url = ''http://e.com/1'', published = (2024, 3, 6),
                 labels = [''film''], content = ''sand''\<rparr>"

definition plain_post :: FeedEntry where
  "plain_post = \<lparr>title = ''A book review'', url = ''http://e.com/2'', published = (2024, 3, 5),
                  labels = [''misc''], content = ''worth reading''\<rparr>"

definition summary_a :: summary where
  "summary_a = \<lparr>base_url = ''http://e.com'', from_date = (2024, 3, 1), to_date = (2024, 3, 31),
                 local_dir = ''articles'', local_count = 1, matched_count = 2, missing_count = 1\<rparr>"

definition summary_b :: summary where
  "summary_b = \<lparr>base_url = ''http://e.com'', from_date = (2021, 1, 1), to_date = (2021, 12, 31),
                 local_dir = ''articles'', local_count = 7, matched_count = 9, missing_count = 1\<rparr>"

text \<open>
  A command line for the feed \<open>three_pages\<close> and the directory \<open>example_dir\<close>: March 2024,
  no label, the title keyword \<open>p\<close>.
\<close>

definition example_args :: args where
  "example_args =
     \<lparr>arg_base_url = ''http://e.com'', arg_from = (2024, 3, 1), arg_to = (2024, 3, 31),
      arg_local_dir = ''articles'', arg_local = Some example_dir, arg_labels = [],
      arg_title_keywords = [''p''], arg_content_keywords = [], arg_format = Text\<rparr>"

text \<open>
  A feed of one entry whose link holds an encoded percent sign, an archive of one article
  with the same link, and the command line for them.
\<close>

definition encoded_feed :: "int \<Rightarrow> int \<Rightarrow> error + Payload" where
  "encoded_feed i n =
     (if i = 1 then
        Inr \<lparr>feed_entry = Some
          [example_raw ''p'' ''http://e.com/a%252fb'' ''2024-03-06T08:00:00Z'']\<rparr>
      else Inr \<lparr>feed_entry = None\<rparr>)"

definition encoded_dir :: "fs_entry list" where
  "encoded_dir = [RegularFile ''a.md'' (link_prefix @ ''http://e.com/a%252fb'')]"

definition encoded_args :: args where
  "encoded_args =
     \<lparr>arg_base_url = ''http://e.com'', arg_from = (2024, 3, 1), arg_to = (2024, 3, 31),
      arg_local_dir = ''articles'', arg_local = Some encoded_dir, arg_labels = [],
      arg_title_keywords = [''p''], arg_content_keywords = [], arg_format = Text\<rparr>"

section \<open>The structural text extractor (\<open>scraper.py\<close>)\<close>

text \<open>
  A node of the parsed page, as BeautifulSoup gives it: a string (\<open>NavigableString\<close>), a
  string of another class that \<open>get_text\<close> leaves out (\<open>OtherString\<close>: a comment, the text of
  a \<open>script\<close>, ...; such a node is still an instance of \<open>NavigableString\<close>), or a \<open>Tag\<close> with
  its name, its attributes and its children in document order.
\<close>

datatype node =
  NavigableString string
| OtherString string
| Tag string "(string \<times> string) list" "node list"

text \<open>\<open>tag.get(key, default)\<close>.\<close>

definition get_attr :: "(string \<times> string) list \<Rightarrow> string \<Rightarrow> string \<Rightarrow> string" where
  "get_attr attrs key fallback = (case map_of attrs key of None \<Rightarrow> fallback | Some v \<Rightarrow> v)"

text \<open>
  \<open>elem.get_text(strip=True)\<close>: the strings below the element, in document order, each
  stripped, the empty ones dropped, joined with nothing in between.
\<close>

fun all_strings :: "node \<Rightarrow> string list" where
  "all_strings (NavigableString s) = [s]"
| "all_strings (OtherString s) = []"
| "all_strings (Tag name attrs children) = concat (map all_strings children)"

definition get_text :: "node \<Rightarrow> string" where
  "get_text elem = concat (filter (\<lambda>s. s \<noteq> []) (map strip (all_strings elem)))"

text \<open>\<open>child.find_all("li", recursive=False)\<close>.\<close>

fun is_li :: "node \<Rightarrow> bool" where
  "is_li (Tag name attrs children) = (name = ''li'')"
| "is_li other = False"

text \<open>The default of \<open>alt\<close>: the two characters U+56FE, U+7247 (the word for a picture).\<close>

definition default_alt :: string where
  "default_alt = [CHR 0xE5, CHR 0x9B, CHR 0xBE, CHR 0xE7, CHR 0x89, CHR 0x87]"

text \<open>
  \<open>extract_text_with_structure elem\<close> is the function of the source; \<open>child_lines child\<close> is
  what one pass of its loop over \<open>elem.children\<close> appends to \<open>lines\<close>.
\<close>

function extract_text_with_structure :: "node \<Rightarrow> string"
  and child_lines :: "node \<Rightarrow> string list" where
  "extract_text_with_structure (NavigableString s) = strip s"
| "extract_text_with_structure (OtherString s) = strip s"
| "extract_text_with_structure (Tag name attrs children) =
     join [CHR 0x0A] (concat (map child_lines children))"
| "child_lines (NavigableString s) = (let text = strip s in if text \<noteq> [] then [text] else [])"
| "child_lines (OtherString s) = (let text = strip s in if text \<noteq> [] then [text] else [])"
| "child_lines (Tag name attrs children) =
     (if name \<in> set [''p'', ''div''] then
        (let text = get_text (Tag name attrs children)
         in if text \<noteq> [] then [text, []] else [])
      else if name \<in> set [''h1'', ''h2'', ''h3'', ''h4'', ''h5'', ''h6''] then
        (let text = get_text (Tag name attrs children)
         in if text \<noteq> [] then
              (let level = of_char (name ! 1) - (48::nat)
               in [replicate (level + 1) (CHR ''#'') @ '' '' @ text, []])
            else [])
      else if name = ''br'' then [[]]
      else if name \<in> set [''ul'', ''ol''] then
        map (\<lambda>text. ''- '' @ text)
          (filter (\<lambda>text. text \<noteq> []) (map get_text (filter is_li children))) @ [[]]
      else if name = ''blockquote'' then
        (let text = get_text (Tag name attrs children)
         in if text \<noteq> [] then
              map (\<lambda>line. ''> '' @ strip line) (split_char (CHR 0x0A) text) @ [[]]
            else [])
      else if name = ''a'' then
        (let text = get_text (Tag name attrs children);
             href = get_attr attrs ''href'' []
         in if text \<noteq> [] \<and> href \<noteq> [] then [''['' @ text @ '']('' @ href @ '')''] else [])
      else if name = ''img'' then
        (let src = get_attr attrs ''src'' [];
             alt = get_attr attrs ''alt'' default_alt
         in if src \<noteq> [] then [''!['' @ alt @ '']('' @ src @ '')'', []] else [])
      else
        (let text = extract_text_with_structure (Tag name attrs children)
         in if strip text \<noteq> [] then [text] else []))"
  by pat_completeness auto
termination
  by (relation "measure (\<lambda>x. case x of Inl n \<Rightarrow> 2 * size n | Inr n \<Rightarrow> 2 * size n + 1)")
     (auto simp: less_Suc_eq_le size_list_estimation')

text \<open>Some nodes: a paragraph, a list item and a heading with one string in them.\<close>

definition para :: "string \<Rightarrow> node" where
  "para s = Tag ''p'' [] [NavigableString s]"

section \<open>The content-acquisition batch (\<open>scraper.py\<close>)\<close>

text \<open>
  What the selectors of \<open>extract_article_content\<close> find in a parsed page: the stripped text
  of the first title element and of the \<open>title\<close> element, the stripped text of the first
  date element, the first content element once its \<open>script\<close>, \<open>style\<close>, \<open>.post-footer\<close> and
  \<open>.comments\<close> descendants are decomposed, and the stripped texts of the label links. \<open>None\<close>
  says that no element matches.
\<close>

record page =
  sel_post_title :: "string option"
  sel_title :: "string option"
  sel_date :: "string option"
  sel_content :: "node option"
  sel_labels :: "string list"

text \<open>
  \<open>get_page(url)\<close>: the parsed page, or \<open>None\<close> after a \<open>requests.RequestException\<close>, which it
  catches. \<open>http url\<close> is what \<open>requests.get\<close> and \<open>raise_for_status\<close> give: the page or an
  exception.
\<close>

definition get_page :: "(string \<Rightarrow> error + page) \<Rightarrow> string \<Rightarrow> error + page option" where
  "get_page http address =
     (case http address of
        Inr soup \<Rightarrow> Inr (Some soup)
      | Inl RequestException \<Rightarrow> Inr None
      | Inl e \<Rightarrow> Inl e)"

text \<open>
  \<open>re.search(r"(\d{4})[-Y/](\d{1,2})[-M/](\d{1,2})", date_text)\<close>, where \<open>Y\<close> and \<open>M\<close> stand
  for the characters U+5E74 and U+6708 (year, month): the three groups of the leftmost
  match. A digit is an ASCII digit here; the other decimal digits of Unicode, which \<open>\d\<close>
  and \<open>int\<close> read as well, are outside the model.
\<close>

definition year_mark :: string where
  "year_mark = [CHR 0xE5, CHR 0xB9, CHR 0xB4]"

definition month_mark :: string where
  "month_mark = [CHR 0xE6, CHR 0x9C, CHR 0x88]"

text \<open>\<open>after seps s\<close>: \<open>s\<close> without the separator it starts with, if it starts with one.\<close>

definition after :: "string list \<Rightarrow> string \<Rightarrow> string option" where
  "after seps s =
     (case find (\<lambda>sep. prefix sep s) seps of
        None \<Rightarrow> None
      | Some sep \<Rightarrow> Some (drop (length sep) s))"

text \<open>\<open>(\d{1,2})\<close>, greedy: the one or two digits \<open>s\<close> starts with, and what follows them.\<close>

definition digits12 :: "string \<Rightarrow> string \<times> string" where
  "digits12 s = (let ds = takeWhile is_digit (take 2 s) in (ds, drop (length ds) s))"

definition match_date_at :: "string \<Rightarrow> (string \<times> string \<times> string) option" where
  "match_date_at s =
     (if length s \<ge> 4 \<and> list_all is_digit (take 4 s) then
        (case after [''-'', year_mark, ''/''] (drop 4 s) of
           None \<Rightarrow> None
         | Some s2 \<Rightarrow>
             (case digits12 s2 of
                (m, s3) \<Rightarrow>
                  if m = [] then None
                  else (case after [''-'', month_mark, ''/''] s3 of
                          None \<Rightarrow> None
                        | Some s4 \<Rightarrow>
                            (case digits12 s4 of
                               (d, s5) \<Rightarrow> if d = [] then None else Some (take 4 s, m, d)))))
      else None)"

fun search_date :: "string \<Rightarrow> (string \<times> string \<times> string) option" where
  "search_date [] = None"
| "search_date (c # cs) =
     (case match_date_at (c # cs) of
        Some g \<Rightarrow> Some g
      | None \<Rightarrow> search_date cs)"

text \<open>
  \<open>parse_date_from_url\<close>: \<open>re.search(r"/(\d{4})/(\d{2})/", url)\<close> and the first day of that
  month; \<open>datetime(year, month, 1)\<close> raises \<open>ValueError\<close> for a month or year out of range.
\<close>

fun search_year_month :: "string \<Rightarrow> (string \<times> string) option" where
  "search_year_month [] = None"
| "search_year_month (c # cs) =
     (if c = CHR ''/'' \<and> length cs \<ge> 8 \<and> list_all is_digit (take 4 cs) \<and> cs ! 4 = CHR ''/''
         \<and> list_all is_digit (take 2 (drop 5 cs)) \<and> cs ! 7 = CHR ''/''
      then Some (take 4 cs, take 2 (drop 5 cs))
      else search_year_month cs)"

definition parse_date_from_url :: "string \<Rightarrow> error + date option" where
  "parse_date_from_url address =
     (case search_year_month address of
        None \<Rightarrow> Inr None
      | Some (y, m) \<Rightarrow>
          (case make_date (digits_value y) (digits_value m) 1 of
             Inl e \<Rightarrow> Inl e
           | Inr d \<Rightarrow> Inr (Some d)))"

text \<open>The dictionary \<open>extract_article_content\<close> returns, with the \<open>label\<close> that \<open>main\<close> adds.\<close>

record full_article =
  fa_title :: "string option"
  fa_date :: "date option"
  fa_content :: "string option"
  fa_labels :: "string list"
  fa_url :: string
  fa_label :: string

definition extract_article_content ::
  "(string \<Rightarrow> error + page) \<Rightarrow> string \<Rightarrow> error + full_article option" where
  "extract_article_content http address =
     (case get_page http address of
        Inl e \<Rightarrow> Inl e
      | Inr None \<Rightarrow> Inr None
      | Inr (Some soup) \<Rightarrow>
          (let title0 = sel_post_title soup;
               title =
                 (if or_empty title0 = [] then
                    (case sel_title soup of
                       None \<Rightarrow> title0
                     | Some t \<Rightarrow> Some (strip (hd (split_char CHR '':'' t))))
                  else title0);
               page_date =
                 (case sel_date soup of
                    None \<Rightarrow> Inr None
                  | Some date_text \<Rightarrow>
                      (case search_date date_text of
                         None \<Rightarrow> Inr None
                       | Some (y, m, d) \<Rightarrow>
                           (case make_date (digits_value y) (digits_value m) (digits_value d) of
                              Inl e \<Rightarrow> Inl e
                            | Inr dt \<Rightarrow> Inr (Some dt))))
           in case page_date of
                Inl e \<Rightarrow> Inl e
              | Inr date0 \<Rightarrow>
                  (case (case date0 of None \<Rightarrow> parse_date_from_url address | Some dt \<Rightarrow> Inr (Some dt)) of
                     Inl e \<Rightarrow> Inl e
                   | Inr date \<Rightarrow>
                       Inr (Some \<lparr>fa_title = title, fa_date = date,
                                  fa_content = map_option extract_text_with_structure
                                                 (sel_content soup),
                                  fa_labels = sel_labels soup, fa_url = address, fa_label = []\<rparr>))))"

text \<open>
  \<open>save_article_to_markdown\<close>. The files written so far are a list of (path, text); \<open>open\<close>
  raises an \<open>OSError\<close> for a path that is not \<open>writable\<close>. An article with no content is
  skipped. \<open>strftime("%Y-%m-%d")\<close> is taken as \<open>isoformat\<close> (they agree from the year 1000 on).
\<close>

text \<open>\<open>s[:n]\<close> counts characters: a byte \<open>0x80\<close>-\<open>0xBF\<close> continues the character before it.\<close>

fun take_chars :: "nat \<Rightarrow> string \<Rightarrow> string" where
  "take_chars n [] = []"
| "take_chars 0 (c # cs) = []"
| "take_chars (Suc n) (c # cs) = c # takeWhile is_cont cs @ take_chars n (dropWhile is_cont cs)"

definition markdown :: "string \<Rightarrow> string \<Rightarrow> string \<Rightarrow> string \<Rightarrow> string \<Rightarrow> string" where
  "markdown heading date_str link labels_str body =
     ''# '' @ heading @ [CHR 0x0A, CHR 0x0A]
     @ ''- '' @ [CHR 0xE6, CHR 0x97, CHR 0xA5, CHR 0xE6, CHR 0x9C, CHR 0x9F, CHR 0xEF, CHR 0xBC, CHR 0x9A]
       @ date_str @ [CHR 0x0A]
     @ link_prefix @ link @ [CHR 0x0A]
     @ ''- '' @ [CHR 0xE6, CHR 0xA0, CHR 0x87, CHR 0xE7, CHR 0xAD, CHR 0xBE, CHR 0xEF, CHR 0xBC, CHR 0x9A]
       @ labels_str @ [CHR 0x0A, CHR 0x0A]
     @ ''---'' @ [CHR 0x0A, CHR 0x0A]
     @ body @ [CHR 0x0A]"

definition save_article_to_markdown ::
  "(string \<Rightarrow> bool) \<Rightarrow> full_article \<Rightarrow> string \<Rightarrow> (string \<times> string) list
     \<Rightarrow> error + (string \<times> string) list" where
  "save_article_to_markdown writable article output_dir written =
     (if or_empty (fa_content article) = [] then Inr written
      else
        (let date_str = (case fa_date article of None \<Rightarrow> ''unknown-date'' | Some d \<Rightarrow> isoformat d);
             title = or_empty (fa_title article);
             safe_title = take_chars 50
               (filter (\<lambda>c. c \<notin> set [CHR 0x5C, CHR ''/'', CHR '':'', CHR ''*'', CHR ''?'', CHR 0x22,
                                        CHR ''<'', CHR ''>'', CHR ''|'']) title);
             filepath = output_dir @ ''/'' @ date_str @ ''-'' @ safe_title @ ''.md'';
             labels_str = (if join '', '' (fa_labels article) \<noteq> []
                           then join '', '' (fa_labels article) else fa_label article)
         in if writable filepath
            then Inr (written @ [(filepath,
                   markdown title date_str (fa_url article) labels_str
                     (or_empty (fa_content article)))])
            else Inl OSError))"

text \<open>
  An article of the index, and the loop of \<open>main\<close> over \<open>all_articles\<close>: what it has written
  and counted when it ends, or when an exception ends it.
\<close>

record article =
  art_title :: string
  art_url :: string
  art_date :: "date option"
  art_label :: string

record crawl_state =
  files :: "(string \<times> string) list"
  saved_count :: nat

datatype crawl = Finished crawl_state | Aborted error crawl_state

fun crawl_articles ::
  "(string \<Rightarrow> error + page) \<Rightarrow> (string \<Rightarrow> bool) \<Rightarrow> string \<Rightarrow> article list \<Rightarrow> crawl_state
     \<Rightarrow> crawl" where
  "crawl_articles http writable output_dir [] st = Finished st"
| "crawl_articles http writable output_dir (a # rest) st =
     (case extract_article_content http (art_url a) of
        Inl e \<Rightarrow> Aborted e st
      | Inr None \<Rightarrow> crawl_articles http writable output_dir rest st
      | Inr (Some full) \<Rightarrow>
          (let merged = full
                 \<lparr>fa_label := art_label a,
                  fa_title := (if or_empty (fa_title full) = [] then Some (art_title a)
                               else fa_title full),
                  fa_date := (case fa_date full of None \<Rightarrow> art_date a | Some d \<Rightarrow> Some d)\<rparr>
           in case save_article_to_markdown writable merged output_dir (files st) of
                Inl e \<Rightarrow> Aborted e st
              | Inr files' \<Rightarrow>
                  crawl_articles http writable output_dir rest
                    \<lparr>files = files', saved_count = saved_count st + 1\<rparr>))"

subsection \<open>A batch of two articles\<close>

definition good_page :: page where
  "good_page =
     \<lparr>sel_post_title = Some ''Second'', sel_title = None, sel_date = Some ''2024-01-05'',
      sel_content = Some (Tag ''div'' [] [para ''A'', para ''B'']), sel_labels = [''film'']\<rparr>"

text \<open>A page whose date header reads as the 45th day of a 13th month.\<close>

definition bad_date_page :: page where
  "bad_date_page = good_page\<lparr>sel_post_title := Some ''First'', sel_date := Some ''2024-13-45''\<rparr>"

definition two_articles :: "article list" where
  "two_articles =
     [\<lparr>art_title = ''First'', art_url = ''http://e.com/2024/01/a.html'',
       art_date = Some (2024, 1, 1), art_label = ''film''\<rparr>,
      \<lparr>art_title = ''Second'', art_url = ''http://e.com/2024/01/b.html'',
       art_date = Some (2024, 1, 1), art_label = ''film''\<rparr>]"

text \<open>The first article's page has the bad date; and the same site with that page unreachable.\<close>

definition site_bad_date :: "string \<Rightarrow> error + page" where
  "site_bad_date u = (if u = ''http://e.com/2024/01/a.html'' then Inr bad_date_page else Inr good_page)"

definition site_unreachable :: "string \<Rightarrow> error + page" where
  "site_unreachable u =
     (if u = ''http://e.com/2024/01/a.html'' then Inl RequestException else Inr good_page)"

text \<open>The paths of the files a run of the loop has written.\<close>

fun written_paths :: "crawl \<Rightarrow> string list" where
  "written_paths (Finished st) = map fst (files st)"
| "written_paths (Aborted e st) = map fst (files st)"

section \<open>Properties of \<open>strip\<close>\<close>

lemma whitespace_prefix_free:
  "\<forall>w\<in>set whitespace. \<forall>w'\<in>set whitespace. prefix w w' \<longrightarrow> w = w'"
  by code_simp

lemma whitespace_space:
  "\<forall>w\<in>set whitespace. w \<noteq> [] \<and> (hd w = CHR 0x20 \<or> last w = CHR 0x20 \<longrightarrow> w = [CHR 0x20])"
  by code_simp

lemma space_whitespace: "[CHR 0x20] \<in> set whitespace"
  by code_simp

lemma leading_Some:
  "leading seqs s = Some w \<Longrightarrow> w \<in> set seqs \<and> w \<noteq> [] \<and> prefix w s"
  unfolding leading_def by (auto simp: find_Some_iff)

lemma leading_None: "leading seqs s = None \<longleftrightarrow> (\<forall>w\<in>set seqs. w = [] \<or> \<not> prefix w s)"
  unfolding leading_def by (auto simp: find_None_iff)

lemma drop_leading_None: "leading seqs s = None \<Longrightarrow> drop_leading seqs s = s"
  by (simp add: drop_leading.simps)

lemma drop_leading_Some:
  "leading seqs s = Some w \<Longrightarrow> drop_leading seqs s = drop_leading seqs (drop (length w) s)"
  by (subst drop_leading.simps) simp

lemma leading_drop_leading: "leading seqs (drop_leading seqs s) = None"
proof (induction seqs s rule: drop_leading.induct)
  case (1 seqs s)
  then show ?case
    by (cases "leading seqs s") (simp_all add: drop_leading_None drop_leading_Some)
qed

lemma suffix_drop_leading: "suffix (drop_leading seqs s) s"
proof (induction seqs s rule: drop_leading.induct)
  case (1 seqs s)
  show ?case
  proof (cases "leading seqs s")
    case None
    then show ?thesis by (simp add: drop_leading_None)
  next
    case (Some w)
    with 1 have "suffix (drop_leading seqs s) (drop (length w) s)"
      by (simp add: drop_leading_Some)
    then show ?thesis using suffix_drop suffix_order.trans by blast
  qed
qed

text \<open>A single space in front is dropped, whatever list of sequences holds it alone.\<close>

lemma leading_space:
  assumes "[c] \<in> set seqs" and "\<forall>w\<in>set seqs. w \<noteq> [] \<and> (hd w = c \<longrightarrow> w = [c])"
  shows "leading seqs (c # t) = Some [c]"
proof (cases "leading seqs (c # t)")
  case None
  with assms(1) show ?thesis by (auto simp: leading_None)
next
  case (Some w)
  then have w: "w \<in> set seqs" "w \<noteq> []" "prefix w (c # t)" using leading_Some by blast+
  from w(2,3) have "hd w = c" by (cases w) simp_all
  with w assms(2) have "w = [c]" by blast
  with Some show ?thesis by simp
qed

lemma lstrip_space: "lstrip (CHR 0x20 # t) = lstrip t"
proof -
  have "leading whitespace (CHR 0x20 # t) = Some [CHR 0x20]"
    using leading_space [of "CHR 0x20" whitespace t] space_whitespace whitespace_space by blast
  then show ?thesis unfolding lstrip_def by (simp add: drop_leading_Some)
qed

lemma rstrip_space: "rstrip (t @ [CHR 0x20]) = rstrip t"
proof -
  have "\<forall>w\<in>set (map rev whitespace). w \<noteq> [] \<and> (hd w = CHR 0x20 \<longrightarrow> w = [CHR 0x20])"
    using whitespace_space by (auto simp: hd_rev)
  moreover have "[CHR 0x20] \<in> set (map rev whitespace)"
    using space_whitespace by force
  ultimately have "leading (map rev whitespace) (CHR 0x20 # rev t) = Some [CHR 0x20]"
    using leading_space by blast
  then show ?thesis unfolding rstrip_def by (simp add: drop_leading_Some)
qed

lemma leading_append:
  assumes "leading whitespace s = Some w"
  shows "leading whitespace (s @ t) = Some w"
proof (cases "leading whitespace (s @ t)")
  case None
  with leading_Some [OF assms] show ?thesis by (auto simp: leading_None)
next
  case (Some w')
  from leading_Some [OF assms] have w: "w \<in> set whitespace" "prefix w (s @ t)" by auto
  from leading_Some [OF Some] have w': "w' \<in> set whitespace" "prefix w' (s @ t)" by auto
  from w(2) w'(2) have "prefix w w' \<or> prefix w' w" by (rule prefix_same_cases)
  with w(1) w'(1) whitespace_prefix_free have "w = w'" by blast
  with Some show ?thesis by simp
qed

lemma leading_snoc_space:
  assumes "leading whitespace s = None" and "s \<noteq> []"
  shows "leading whitespace (s @ [CHR 0x20]) = None"
proof -
  have "w = [] \<or> \<not> prefix w (s @ [CHR 0x20])" if "w \<in> set whitespace" for w
  proof (rule ccontr)
    assume "\<not> (w = [] \<or> \<not> prefix w (s @ [CHR 0x20]))"
    then have ne: "w \<noteq> []" and p: "prefix w (s @ [CHR 0x20])" by auto
    from assms(1) that ne have "\<not> prefix w s" by (auto simp: leading_None)
    with p have "w = s @ [CHR 0x20]" by (simp add: prefix_snoc)
    then have "last w = CHR 0x20" and "length w \<ge> 2" using assms(2) by (auto simp: Suc_le_eq)
    with that whitespace_space show False by fastforce
  qed
  then show ?thesis by (auto simp: leading_None)
qed

lemma lstrip_snoc_space:
  "lstrip (s @ [CHR 0x20]) = (if lstrip s = [] then [] else lstrip s @ [CHR 0x20])"
  unfolding lstrip_def
proof (induction whitespace s rule: drop_leading.induct)
  case (1 s)
  show ?case
  proof (cases "leading whitespace s")
    case None
    show ?thesis
    proof (cases "s = []")
      case True
      have "drop_leading whitespace [CHR 0x20] = drop_leading whitespace []"
        using lstrip_space [of "[]"] by (simp add: lstrip_def)
      with True None show ?thesis by (simp add: drop_leading_None)
    next
      case False
      with None leading_snoc_space show ?thesis by (simp add: drop_leading_None)
    qed
  next
    case (Some w)
    then have "length w \<le> length s" using leading_Some prefix_length_le by blast
    with Some 1 leading_append [OF Some, of "[CHR 0x20]"] show ?thesis
      by (simp add: drop_leading_Some)
  qed
qed

lemma strip_space_left: "strip (CHR 0x20 # s) = strip s"
  by (simp add: strip_def lstrip_space)

lemma strip_space_right: "strip (s @ [CHR 0x20]) = strip s"
proof -
  have "rstrip [] = []" by (simp add: rstrip_def drop_leading_None leading_None)
  then show ?thesis
    by (simp add: strip_def lstrip_snoc_space rstrip_space)
qed

lemma strip_spaces: "strip (replicate a (CHR 0x20) @ s @ replicate b (CHR 0x20)) = strip s"
proof -
  have r: "strip (t @ replicate b (CHR 0x20)) = strip t" for t
  proof (induction b)
    case 0
    then show ?case by simp
  next
    case (Suc b)
    have "t @ replicate (Suc b) (CHR 0x20) = (t @ replicate b (CHR 0x20)) @ [CHR 0x20]"
      by (simp add: replicate_append_same)
    with Suc show ?case by (simp only: strip_space_right)
  qed
  have "strip (replicate a (CHR 0x20) @ t) = strip t" for t
    by (induction a) (simp_all add: strip_space_left)
  with r show ?thesis by simp
qed

lemma strip_strip: "strip (strip s) = strip s"
proof -
  let ?t = "lstrip s"
  have rr: "rstrip (rstrip t) = rstrip t" for t
    unfolding rstrip_def by (simp add: drop_leading_None leading_drop_leading)
  have "prefix (rstrip ?t) ?t"
    unfolding rstrip_def using suffix_drop_leading [of "map rev whitespace" "rev ?t"]
    by (metis rev_rev_ident suffix_to_prefix)
  moreover have "leading whitespace ?t = None"
    unfolding lstrip_def by (rule leading_drop_leading)
  ultimately have "leading whitespace (rstrip ?t) = None"
    by (meson leading_None prefix_order.trans)
  then have "lstrip (rstrip ?t) = rstrip ?t"
    by (simp add: lstrip_def drop_leading_None)
  then show ?thesis by (simp add: strip_def rr)
qed

section \<open>Properties of the feed walker\<close>

lemma process_page_two:
  assumes "parse_entry fromiso ra = Inr (Some a)" and "parse_entry fromiso rb = Inr (Some b)"
    and "published b < published a"
  shows "process_page fromiso sd ed \<lparr>feed_entry = Some [ra, rb]\<rparr> =
          (let ys = filter (\<lambda>e. sd \<le> published e \<and> published e \<le> ed) [a, b]
           in if published b < sd then Stop ys else Continue ys)"
  using assms by (auto simp: process_page_def min_def Let_def)

lemma page_entries_length:
  "page_entries fromiso raws = Inr pes \<Longrightarrow> length pes \<le> length raws"
proof (induction raws arbitrary: pes)
  case Nil
  then show ?case by simp
next
  case (Cons raw raws)
  then show ?case
    by (fastforce split: sum.splits option.splits)
qed

lemma process_page_Continue_iff:
  "process_page fromiso sd ed payload = Continue ys \<longleftrightarrow>
     (\<exists>entries pes oldest.
        feed_entry payload = Some entries \<and> entries \<noteq> [] \<and>
        page_entries fromiso entries = Inr pes \<and>
        oldest_on_page pes = Some oldest \<and> \<not> oldest < sd \<and>
        ys = filter (\<lambda>e. sd \<le> published e \<and> published e \<le> ed) pes)"
  by (auto simp: process_page_def Let_def split: option.splits sum.splits)

lemma process_page_yield_length:
  assumes "process_page fromiso sd ed payload = Stop ys \<or> process_page fromiso sd ed payload = Continue ys"
  shows "length ys \<le> (case feed_entry payload of None \<Rightarrow> 0 | Some entries \<Rightarrow> length entries)"
proof (cases "feed_entry payload")
  case None
  with assms show ?thesis by (auto simp: process_page_def)
next
  case (Some entries)
  show ?thesis
  proof (cases "page_entries fromiso entries")
    case (Inl e)
    with Some assms show ?thesis
      by (auto simp: process_page_def split: if_splits)
  next
    case (Inr pes)
    have "length (filter (\<lambda>e. sd \<le> published e \<and> published e \<le> ed) pes) \<le> length entries"
      using page_entries_length [OF Inr] length_filter_le le_trans by blast
    with Some Inr assms show ?thesis
      by (auto simp: process_page_def Let_def split: if_splits option.splits)
  qed
qed

lemma walk_from_continued:
  assumes "\<not> page_ends fromiso fetch sd ed n i"
  shows "fetched (walk_from fromiso fetch sd ed n (Suc k) i) =
           i # fetched (walk_from fromiso fetch sd ed n k (i + n))"
    and "outcome (walk_from fromiso fetch sd ed n (Suc k) i) =
           outcome (walk_from fromiso fetch sd ed n k (i + n))"
  using assms by (simp_all add: page_ends_def Let_def split: sum.splits page_result.splits)

lemma walk_from_ended:
  "page_ends fromiso fetch sd ed n i \<Longrightarrow>
     fetched (walk_from fromiso fetch sd ed n (Suc k) i) = [i] \<and>
     outcome (walk_from fromiso fetch sd ed n (Suc k) i) \<noteq> Running"
  by (simp add: page_ends_def split: sum.splits page_result.splits)

lemma walk_from_offsets:
  "j < length (fetched (walk_from fromiso fetch sd ed n k i)) \<Longrightarrow>
     fetched (walk_from fromiso fetch sd ed n k i) ! j = i + int j * n"
proof (induction k arbitrary: i j)
  case 0
  then show ?case by simp
next
  case (Suc k)
  show ?case
  proof (cases "page_ends fromiso fetch sd ed n i")
    case True
    with Suc.prems walk_from_ended [OF True, of k] show ?thesis by simp
  next
    case False
    show ?thesis
    proof (cases j)
      case 0
      with False show ?thesis by (simp add: walk_from_continued del: walk_from.simps)
    next
      case (Suc j')
      with False Suc.prems have "j' < length (fetched (walk_from fromiso fetch sd ed n k (i + n)))"
        by (simp add: walk_from_continued del: walk_from.simps)
      from Suc.IH [OF this] Suc False show ?thesis
        by (simp add: walk_from_continued algebra_simps del: walk_from.simps)
    qed
  qed
qed

lemma walk_from_increasing:
  assumes "0 < n"
  shows "sorted_wrt (<) (fetched (walk_from fromiso fetch sd ed n k i))"
proof -
  have "\<And>a b. a < b \<Longrightarrow> i + int a * n < i + int b * n"
    using assms by simp
  then show ?thesis
    by (simp add: sorted_wrt_iff_nth_less walk_from_offsets)
qed

lemma walk_from_yield_bound:
  "length (yielded (walk_from fromiso fetch sd ed n k i))
     \<le> sum_list (map (fetched_entries fetch n) (fetched (walk_from fromiso fetch sd ed n k i)))"
proof (induction k arbitrary: i)
  case 0
  then show ?case by simp
next
  case (Suc k)
  show ?case
  proof (cases "fetch i n")
    case (Inl e)
    then show ?thesis by simp
  next
    case (Inr payload)
    show ?thesis
    proof (cases "process_page fromiso sd ed payload")
      case (Stop ys)
      with Inr process_page_yield_length [of fromiso sd ed payload ys] show ?thesis
        by (simp add: fetched_entries_def)
    next
      case (Continue ys)
      with Inr process_page_yield_length [of fromiso sd ed payload ys] Suc.IH [of "i + n"]
      show ?thesis
        by (simp add: fetched_entries_def Let_def)
    next
      case (Fail e)
      with Inr show ?thesis by simp
    qed
  qed
qed

lemma walk_from_returns:
  "page_ends fromiso fetch sd ed n (i + int j * n) \<Longrightarrow>
     outcome (walk_from fromiso fetch sd ed n (Suc j) i) \<noteq> Running"
proof (induction j arbitrary: i)
  case 0
  then show ?case using walk_from_ended [of fromiso fetch sd ed n i 0] by simp
next
  case (Suc j)
  show ?case
  proof (cases "page_ends fromiso fetch sd ed n i")
    case True
    then show ?thesis using walk_from_ended by blast
  next
    case False
    from Suc.prems have "page_ends fromiso fetch sd ed n ((i + n) + int j * n)"
      by (simp add: algebra_simps)
    from Suc.IH [OF this] False show ?thesis
      by (simp add: walk_from_continued del: walk_from.simps)
  qed
qed

lemma walk_from_runs_on:
  "(\<And>i. \<not> page_ends fromiso fetch sd ed n i) \<Longrightarrow>
     outcome (walk_from fromiso fetch sd ed n k i) = Running"
proof (induction k arbitrary: i)
  case 0
  then show ?case by simp
next
  case (Suc k)
  then show ?case by (simp add: walk_from_continued del: walk_from.simps)
qed

lemma page_ends_iff:
  "page_ends fromiso fetch sd ed n i \<longleftrightarrow>
     (case fetch i n of
        Inl e \<Rightarrow> True
      | Inr payload \<Rightarrow>
          (case feed_entry payload of
             None \<Rightarrow> True
           | Some entries \<Rightarrow>
               entries = [] \<or>
               (case page_entries fromiso entries of
                  Inl e \<Rightarrow> True
                | Inr pes \<Rightarrow>
                    (case oldest_on_page pes of
                       None \<Rightarrow> True
                     | Some oldest \<Rightarrow> oldest < sd))))"
  by (simp add: page_ends_def process_page_def Let_def split: sum.splits option.splits)

lemma oldest_on_page_cases:
  "(case oldest_on_page pes of None \<Rightarrow> True | Some oldest \<Rightarrow> oldest < sd) \<longleftrightarrow>
     pes = [] \<or> (\<exists>oldest. oldest_on_page pes = Some oldest \<and> oldest < sd)"
  by (cases pes) simp_all

subsection \<open>The concrete feeds\<close>

lemma example_parse:
  "parse_entry fromisoformat_date (example_raw ''p1'' ''http://e.com/1'' ''2024-03-06T08:00:00Z'')
     = Inr (Some (example_post ''p1'' ''http://e.com/1'' (2024, 3, 6)))"
  "parse_entry fromisoformat_date (example_raw ''p2'' ''http://e.com/2'' ''2024-03-05T08:00:00Z'')
     = Inr (Some (example_post ''p2'' ''http://e.com/2'' (2024, 3, 5)))"
  "parse_entry fromisoformat_date (example_raw ''p3'' ''http://e.com/3'' ''2024-03-04T08:00:00Z'')
     = Inr (Some (example_post ''p3'' ''http://e.com/3'' (2024, 3, 4)))"
  "parse_entry fromisoformat_date (example_raw ''p4'' ''http://e.com/4'' ''2024-03-03T08:00:00Z'')
     = Inr (Some (example_post ''p4'' ''http://e.com/4'' (2024, 3, 3)))"
  "parse_entry fromisoformat_date (example_raw ''p5'' ''http://e.com/5'' ''2024-03-02T08:00:00Z'')
     = Inr (Some (example_post ''p5'' ''http://e.com/5'' (2024, 3, 2)))"
  "parse_entry fromisoformat_date (example_raw ''p6'' ''http://e.com/6'' ''2024-03-01T08:00:00Z'')
     = Inr (Some (example_post ''p6'' ''http://e.com/6'' (2024, 3, 1)))"
  by code_simp+

lemma same_page_goes_on:
  "\<not> page_ends fromisoformat_date same_page (2024, 1, 1) (2024, 12, 31) 150 i"
  by (simp add: page_ends_def same_page_def process_page_def example_parse example_post_def)

lemma three_pages_last:
  "page_ends fromisoformat_date three_pages (2024, 3, 3) (2024, 3, 4) 2 (1 + int 2 * 2)"
  by (simp add: page_ends_def three_pages_def process_page_def example_parse example_post_def)

subsection \<open>Claim C1\<close>

text \<open>
  C1. A source of three pages of two entries each, the publish dates strictly decreasing
  over the six entries, and a window \<open>[start_date, end_date]\<close> that holds the two dates
  of page 2 and no other: the walker fetches the offsets of pages 1, 2 and 3 and no
  more, yields the two entries of page 2 in page order, and returns. Three iterations of
  fuel are enough, and more change nothing.
\<close>

theorem walker_three_pages:
  assumes p1: "fetch 1 n = Inr \<lparr>feed_entry = Some [r1, r2]\<rparr>"
    and p2: "fetch (1 + n) n = Inr \<lparr>feed_entry = Some [r3, r4]\<rparr>"
    and p3: "fetch (1 + 2 * n) n = Inr \<lparr>feed_entry = Some [r5, r6]\<rparr>"
    and e1: "parse_entry fromiso r1 = Inr (Some e1)"
    and e2: "parse_entry fromiso r2 = Inr (Some e2)"
    and e3: "parse_entry fromiso r3 = Inr (Some e3)"
    and e4: "parse_entry fromiso r4 = Inr (Some e4)"
    and e5: "parse_entry fromiso r5 = Inr (Some e5)"
    and e6: "parse_entry fromiso r6 = Inr (Some e6)"
    and d12: "published e2 < published e1"
    and d23: "published e3 < published e2"
    and d34: "published e4 < published e3"
    and d45: "published e5 < published e4"
    and d56: "published e6 < published e5"
    and w2: "end_date < published e2"
    and w3: "published e3 \<le> end_date"
    and w4: "start_date \<le> published e4"
    and w5: "published e5 < start_date"
    and fuel: "3 \<le> fuel"
  shows "iter_recent_posts fromiso fetch start_date end_date n fuel =
           \<lparr>fetched = [1, 1 + n, 1 + 2 * n], yielded = [e3, e4], outcome = Returned\<rparr>"
proof -
  obtain k where k: "fuel = Suc (Suc (Suc k))"
    using fuel by (metis Suc_le_D numeral_3_eq_3 Suc_le_mono)
  have a1: "end_date < published e1" using w2 d12 by (rule less_trans)
  have a4: "published e4 \<le> end_date" using d34 w3 by (meson less_le_trans less_imp_le)
  have a3: "start_date \<le> published e3" using w4 d34 by (meson le_less_trans less_imp_le)
  have a2: "start_date \<le> published e2" using a3 d23 by (meson le_less_trans less_imp_le)
  have a6: "published e6 < start_date" using d56 w5 by (rule less_trans)
  have a5: "\<not> start_date \<le> published e5" using w5 by (simp add: not_le)
  have a6': "\<not> start_date \<le> published e6" using a6 by (simp add: not_le)
  have g1: "process_page fromiso start_date end_date \<lparr>feed_entry = Some [r1, r2]\<rparr> = Continue []"
    using process_page_two [OF e1 e2 d12, of start_date end_date] a1 a2 w2
    by (auto simp: Let_def)
  have g2: "process_page fromiso start_date end_date \<lparr>feed_entry = Some [r3, r4]\<rparr>
              = Continue [e3, e4]"
    using process_page_two [OF e3 e4 d34, of start_date end_date] a3 a4 w3 w4
    by (auto simp: Let_def)
  have g3: "process_page fromiso start_date end_date \<lparr>feed_entry = Some [r5, r6]\<rparr> = Stop []"
    using process_page_two [OF e5 e6 d56, of start_date end_date] a5 a6 a6'
    by (auto simp: Let_def)
  have n2: "1 + n + n = 1 + 2 * n" by simp
  show ?thesis
    unfolding iter_recent_posts_def k
    by (simp add: p1 p2 p3 g1 g2 g3 n2)
qed

theorem walker_three_pages_witness:
  "iter_recent_posts fromisoformat_date three_pages (2024, 3, 3) (2024, 3, 4) 2 3 =
     \<lparr>fetched = [1, 3, 5],
      yielded = [example_post ''p3'' ''http://e.com/3'' (2024, 3, 4),
                 example_post ''p4'' ''http://e.com/4'' (2024, 3, 3)],
      outcome = Returned\<rparr>"
proof -
  have p1: "three_pages 1 2 = Inr \<lparr>feed_entry = Some
      [example_raw ''p1'' ''http://e.com/1'' ''2024-03-06T08:00:00Z'',
       example_raw ''p2'' ''http://e.com/2'' ''2024-03-05T08:00:00Z'']\<rparr>"
    by (simp add: three_pages_def)
  have p2: "three_pages (1 + 2) 2 = Inr \<lparr>feed_entry = Some
      [example_raw ''p3'' ''http://e.com/3'' ''2024-03-04T08:00:00Z'',
       example_raw ''p4'' ''http://e.com/4'' ''2024-03-03T08:00:00Z'']\<rparr>"
    by (simp add: three_pages_def)
  have p3: "three_pages (1 + 2 * 2) 2 = Inr \<lparr>feed_entry = Some
      [example_raw ''p5'' ''http://e.com/5'' ''2024-03-02T08:00:00Z'',
       example_raw ''p6'' ''http://e.com/6'' ''2024-03-01T08:00:00Z'']\<rparr>"
    by (simp add: three_pages_def)
  have "iter_recent_posts fromisoformat_date three_pages (2024, 3, 3) (2024, 3, 4) 2 3 =
     \<lparr>fetched = [1, 1 + 2, 1 + 2 * 2],
      yielded = [example_post ''p3'' ''http://e.com/3'' (2024, 3, 4),
                 example_post ''p4'' ''http://e.com/4'' (2024, 3, 3)],
      outcome = Returned\<rparr>"
    by (rule walker_three_pages [where fetch = three_pages and n = 2, OF p1 p2 p3 example_parse])
       (simp_all add: example_post_def)
  then show ?thesis by simp
qed

subsection \<open>Claim C4\<close>

text \<open>
  C4, as the code has it. The walk ends only at a page that ends it; a source that never
  serves such a page keeps it running for ever, and a page size of 0 fetches the same
  offset again. First the two runs that show it: on \<open>same_page\<close> no amount of fuel lets the
  walk return, and with \<open>max_results = 0\<close> the walk over \<open>three_pages\<close> fetches offset 1 twice.
\<close>

theorem walker_can_loop_forever:
  "(\<forall>fuel. outcome (iter_recent_posts fromisoformat_date same_page (2024, 1, 1) (2024, 12, 31)
                        150 fuel) = Running)
   \<and> fetched (iter_recent_posts fromisoformat_date three_pages (2024, 3, 3) (2024, 3, 4) 0 2)
       = [1, 1]"
proof
  show "\<forall>fuel. outcome (iter_recent_posts fromisoformat_date same_page (2024, 1, 1)
                          (2024, 12, 31) 150 fuel) = Running"
    unfolding iter_recent_posts_def
    using walk_from_runs_on [of fromisoformat_date same_page "(2024, 1, 1)" "(2024, 12, 31)" 150]
      same_page_goes_on by blast
next
  have "\<not> page_ends fromisoformat_date three_pages (2024, 3, 3) (2024, 3, 4) 0 1"
    by (simp add: page_ends_def three_pages_def process_page_def example_parse example_post_def)
  then show "fetched (iter_recent_posts fromisoformat_date three_pages (2024, 3, 3) (2024, 3, 4) 0 2)
               = [1, 1]"
    unfolding iter_recent_posts_def
    by (simp add: numeral_2_eq_2 walk_from_continued del: walk_from.simps(2))
qed

text \<open>
  C4, amended. With a page size above 0: an iteration that ends the walk (an exception,
  no entry on the page, no usable entry, or an oldest date before \<open>start_date\<close>) is its
  last fetch, and any other iteration goes on at the offset plus the page size; so the
  offsets fetched are \<open>1, 1 + n, 1 + 2n, ...\<close>, strictly increasing and without a
  repetition; the walk yields no more entries than the pages it fetched carry; and it
  has ended after \<open>j + 1\<close> iterations when the page at offset \<open>1 + j * n\<close> ends it.
\<close>

theorem walker_progress:
  assumes "0 < n"
  shows
    "(page_ends fromiso fetch sd ed n i \<longleftrightarrow>
        (case fetch i n of
           Inl e \<Rightarrow> True
         | Inr payload \<Rightarrow>
             (case feed_entry payload of
                None \<Rightarrow> True
              | Some entries \<Rightarrow>
                  entries = [] \<or>
                  (case page_entries fromiso entries of
                     Inl e \<Rightarrow> True
                   | Inr pes \<Rightarrow>
                       pes = [] \<or> (\<exists>oldest. oldest_on_page pes = Some oldest \<and> oldest < sd)))))
     \<and> (if page_ends fromiso fetch sd ed n i
        then fetched (walk_from fromiso fetch sd ed n (Suc k) i) = [i]
             \<and> outcome (walk_from fromiso fetch sd ed n (Suc k) i) \<noteq> Running
        else fetched (walk_from fromiso fetch sd ed n (Suc k) i)
               = i # fetched (walk_from fromiso fetch sd ed n k (i + n))
             \<and> i < i + n)
     \<and> (\<forall>j < length (fetched (iter_recent_posts fromiso fetch sd ed n fuel)).
           fetched (iter_recent_posts fromiso fetch sd ed n fuel) ! j = 1 + int j * n)
     \<and> sorted_wrt (<) (fetched (iter_recent_posts fromiso fetch sd ed n fuel))
     \<and> distinct (fetched (iter_recent_posts fromiso fetch sd ed n fuel))
     \<and> length (yielded (iter_recent_posts fromiso fetch sd ed n fuel))
         \<le> sum_list (map (fetched_entries fetch n)
                        (fetched (iter_recent_posts fromiso fetch sd ed n fuel)))
     \<and> (page_ends fromiso fetch sd ed n (1 + int j * n) \<longrightarrow>
          outcome (iter_recent_posts fromiso fetch sd ed n (Suc j)) \<noteq> Running)"
proof -
  have ends: "page_ends fromiso fetch sd ed n i \<longleftrightarrow>
        (case fetch i n of
           Inl e \<Rightarrow> True
         | Inr payload \<Rightarrow>
             (case feed_entry payload of
                None \<Rightarrow> True
              | Some entries \<Rightarrow>
                  entries = [] \<or>
                  (case page_entries fromiso entries of
                     Inl e \<Rightarrow> True
                   | Inr pes \<Rightarrow>
                       pes = [] \<or> (\<exists>oldest. oldest_on_page pes = Some oldest \<and> oldest < sd))))"
    unfolding page_ends_iff
    by (simp add: oldest_on_page_cases split: sum.splits option.splits)
  have step: "if page_ends fromiso fetch sd ed n i
        then fetched (walk_from fromiso fetch sd ed n (Suc k) i) = [i]
             \<and> outcome (walk_from fromiso fetch sd ed n (Suc k) i) \<noteq> Running
        else fetched (walk_from fromiso fetch sd ed n (Suc k) i)
               = i # fetched (walk_from fromiso fetch sd ed n k (i + n))
             \<and> i < i + n"
    using assms walk_from_ended [of fromiso fetch sd ed n i k]
      walk_from_continued(1) [of fromiso fetch sd ed n i k]
    by (simp del: walk_from.simps)
  have incr: "sorted_wrt (<) (fetched (iter_recent_posts fromiso fetch sd ed n fuel))"
    unfolding iter_recent_posts_def using assms by (rule walk_from_increasing)
  then have dist: "distinct (fetched (iter_recent_posts fromiso fetch sd ed n fuel))"
    by (simp add: strict_sorted_iff)
  from ends step incr dist show ?thesis
    unfolding iter_recent_posts_def
    using walk_from_offsets [of _ fromiso fetch sd ed n fuel 1]
      walk_from_yield_bound [of fromiso fetch sd ed n fuel 1]
      walk_from_returns [of fromiso fetch sd ed n 1 j]
    by (simp del: walk_from.simps)
qed

theorem walker_progress_witness:
  "fetched (walk_from fromisoformat_date three_pages (2024, 3, 3) (2024, 3, 4) 2 (Suc 0) 5) = [5]
   \<and> sorted_wrt (<) (fetched (iter_recent_posts fromisoformat_date three_pages
                               (2024, 3, 3) (2024, 3, 4) 2 3))
   \<and> distinct (fetched (iter_recent_posts fromisoformat_date three_pages
                          (2024, 3, 3) (2024, 3, 4) 2 3))
   \<and> length (yielded (iter_recent_posts fromisoformat_date three_pages
                        (2024, 3, 3) (2024, 3, 4) 2 3))
       \<le> sum_list (map (fetched_entries three_pages 2)
                      (fetched (iter_recent_posts fromisoformat_date three_pages
                                  (2024, 3, 3) (2024, 3, 4) 2 3)))
   \<and> outcome (iter_recent_posts fromisoformat_date three_pages
                (2024, 3, 3) (2024, 3, 4) 2 (Suc 2)) \<noteq> Running"
proof -
  have pos: "(0::int) < 2" by simp
  have last: "page_ends fromisoformat_date three_pages (2024, 3, 3) (2024, 3, 4) 2 5"
    using three_pages_last by simp
  show ?thesis
    using walker_progress [OF pos, of fromisoformat_date three_pages "(2024, 3, 3)"
        "(2024, 3, 4)" 5 0 3 2] last
    by (simp del: walk_from.simps)
qed

subsection \<open>Claim C9\<close>

text \<open>
  C9. \<open>normalize_url\<close> ignores surrounding whitespace: the result for \<open>" " + u + " "\<close> is
  the result for \<open>u\<close>, and so for any number of spaces on either side; the function reads
  its argument only through \<open>strip\<close> (whose result is left unchanged by a second \<open>strip\<close>),
  so no whitespace around the input reaches the output.
\<close>

theorem normalize_url_ignores_spaces:
  "normalize_url ('' '' @ u @ '' '') = normalize_url u
   \<and> normalize_url (replicate a (CHR 0x20) @ u @ replicate b (CHR 0x20)) = normalize_url u
   \<and> normalize_url (strip u) = normalize_url u"
proof -
  have "strip ('' '' @ u @ '' '') = strip u"
    using strip_spaces [of 1 u 1] by simp
  then show ?thesis
    by (simp add: normalize_url_def strip_spaces strip_strip del: append.simps)
qed

section \<open>Properties of the local archive index\<close>

lemma read_files_step:
  assumes "read_files (RegularFile name body # rest) acc = Inr urls"
  shows "\<exists>acc'. read_files rest acc' = Inr urls \<and> acc' = acc \<union> {u. file_url body u}"
proof (cases "first_link body")
  case None
  with assms show ?thesis by (simp add: file_url_def)
next
  case (Some raw)
  show ?thesis
  proof (cases "strip raw = []")
    case True
    with Some assms show ?thesis by (simp add: file_url_def)
  next
    case False
    show ?thesis
    proof (cases "normalize_url (strip raw)")
      case (Inl e)
      with Some False assms show ?thesis by simp
    next
      case (Inr u)
      with Some False have "{u. file_url body u} = {u}" by (auto simp: file_url_def)
      with Some False Inr assms show ?thesis by simp
    qed
  qed
qed

lemma read_files_urls:
  "read_files es acc = Inr urls \<Longrightarrow>
     urls = acc \<union> {u. \<exists>name body. RegularFile name body \<in> set es \<and> file_url body u}"
proof (induction es arbitrary: acc)
  case Nil
  then show ?case by simp
next
  case (Cons e es)
  show ?case
  proof (cases e)
    case (RegularFile name body)
    with Cons.prems read_files_step obtain acc' where
      "read_files es acc' = Inr urls" "acc' = acc \<union> {u. file_url body u}" by blast
    with Cons.IH [of acc'] RegularFile show ?thesis by auto
  next
    case (SubDirectory name children)
    with Cons.prems show ?thesis by simp
  qed
qed

lemma first_link_Some:
  "first_link text = Some raw \<longleftrightarrow>
     (\<exists>before after. split_char (CHR 0x0A) text = before @ (link_prefix @ raw) # after
        \<and> (\<forall>l\<in>set before. \<not> prefix link_prefix l))"
proof
  assume "first_link text = Some raw"
  then obtain line where f: "find (prefix link_prefix) (split_char (CHR 0x0A) text) = Some line"
    and raw: "raw = drop (length link_prefix) line"
    by (auto simp: first_link_def split: option.splits)
  from f obtain i where i: "i < length (split_char (CHR 0x0A) text)"
    "prefix link_prefix (split_char (CHR 0x0A) text ! i)" "line = split_char (CHR 0x0A) text ! i"
    "\<forall>j<i. \<not> prefix link_prefix (split_char (CHR 0x0A) text ! j)"
    by (auto simp: find_Some_iff)
  let ?ls = "split_char (CHR 0x0A) text"
  have "?ls = take i ?ls @ line # drop (Suc i) ?ls" using i(1,3) by (simp add: id_take_nth_drop)
  moreover have "line = link_prefix @ raw" using i(2,3) raw by (auto simp: prefix_def)
  moreover have "\<forall>l\<in>set (take i ?ls). \<not> prefix link_prefix l"
    using i(4) by (auto simp: in_set_conv_nth)
  ultimately show "\<exists>before after. ?ls = before @ (link_prefix @ raw) # after
        \<and> (\<forall>l\<in>set before. \<not> prefix link_prefix l)" by metis
next
  assume "\<exists>before after. split_char (CHR 0x0A) text = before @ (link_prefix @ raw) # after
        \<and> (\<forall>l\<in>set before. \<not> prefix link_prefix l)"
  then obtain before after where s: "split_char (CHR 0x0A) text = before @ (link_prefix @ raw) # after"
    and b: "\<forall>l\<in>set before. \<not> prefix link_prefix l" by blast
  have "find (prefix link_prefix) (before @ (link_prefix @ raw) # after) = Some (link_prefix @ raw)"
    using b by (induction before) simp_all
  with s show "first_link text = Some raw" by (simp add: first_link_def)
qed

lemma set_glob_md: "set (glob_md entries) = {e \<in> set entries. suffix ''.md'' (entry_name e)}"
  by (auto simp: glob_md_def)

subsection \<open>Claim C10\<close>

text \<open>
  C10. When \<open>read_local_urls\<close> returns, the index is exactly the set of the URLs that come
  from a regular file directly in the directory, with a name ending in \<open>.md\<close>, whose first
  line starting with the link marker has a non-empty text after it once stripped, that
  text normalised by \<open>normalize_url\<close>. A file with no such line, or with an empty URL, adds
  nothing, and what a sub-directory holds is never read. The first link line: the lines
  before it (lines end at \<open>\\n\<close>) do not start with the marker.
\<close>

theorem read_local_urls_index:
  assumes "read_local_urls entries = Inr urls"
  shows "urls = {u. \<exists>name text raw.
                   RegularFile name text \<in> set entries \<and> suffix ''.md'' name
                   \<and> first_link text = Some raw \<and> strip raw \<noteq> []
                   \<and> normalize_url (strip raw) = Inr u}
         \<and> (\<forall>text raw. first_link text = Some raw \<longleftrightarrow>
               (\<exists>before after. split_char (CHR 0x0A) text = before @ (link_prefix @ raw) # after
                  \<and> (\<forall>l\<in>set before. \<not> prefix link_prefix l)))"
proof -
  from read_files_urls [OF assms [unfolded read_local_urls_def]]
  have "urls = {u. \<exists>name text raw. RegularFile name text \<in> set (glob_md entries) \<and> first_link text = Some raw
                      \<and> strip raw \<noteq> [] \<and> normalize_url (strip raw) = Inr u}"
    by (auto simp: file_url_def)
  also have "\<dots> = {u. \<exists>name text raw.
                   RegularFile name text \<in> set entries \<and> suffix ''.md'' name
                   \<and> first_link text = Some raw \<and> strip raw \<noteq> []
                   \<and> normalize_url (strip raw) = Inr u}"
    by (auto simp: set_glob_md)
  finally show ?thesis using first_link_Some by blast
qed

theorem read_local_urls_index_witness:
  "read_local_urls example_dir = Inr {''http://e.com/1''}
   \<and> {''http://e.com/1''} =
       {u. \<exists>name text raw.
             RegularFile name text \<in> set example_dir \<and> suffix ''.md'' name
             \<and> first_link text = Some raw \<and> strip raw \<noteq> []
             \<and> normalize_url (strip raw) = Inr u}"
proof -
  have run: "read_local_urls example_dir = Inr {''http://e.com/1''}"
    by code_simp
  show ?thesis
    by (rule conjI, rule run, rule conjunct1 [OF read_local_urls_index [OF run]])
qed

section \<open>Properties of the classifier\<close>

lemma contains_sublist: "contains k s \<longleftrightarrow> sublist k s"
  by (induction s) (simp_all add: sublist_Cons_right)

lemma keyword_re_search:
  "keyword_re keywords s = Inr (\<exists>k\<in>set keywords. sublist k s)"
  by (simp add: keyword_re_def list_ex_iff contains_sublist)

lemma search_compiled:
  "search_opt (compile_keywords keywords) s = Inr (\<exists>k\<in>set keywords. sublist k s)"
  by (simp add: search_opt_def compile_keywords_def keyword_re_search)

subsection \<open>Claim C5\<close>

text \<open>
  C5. The three criteria in order. A label of the record in the label set: the record is
  matched whatever the two patterns are, also patterns whose \<open>search\<close> would raise, so
  they are not evaluated. No such label: an absent title pattern is skipped; a title
  pattern that matches decides for a match whatever the content pattern is; one that raises
  raises; one that does not match hands over to the content pattern. An absent pattern
  answers no match; with no label set and no pattern nothing is matched. For the patterns
  \<open>main\<close> compiles from its keyword lists (\<open>None\<close> for an empty list): matched iff a label is
  in the set, or a title keyword occurs in the title, or a content keyword in the content.
\<close>

theorem classifier_order:
  "(include_labels \<noteq> {} \<and> (\<exists>l\<in>set (labels e). l \<in> include_labels) \<longrightarrow>
      entry_matches include_labels tre cre e = Inr True)
   \<and> (\<not> (\<exists>l\<in>set (labels e). l \<in> include_labels) \<longrightarrow>
        (tre = None \<longrightarrow> entry_matches include_labels tre cre e = search_opt cre (content e))
      \<and> (\<forall>t. tre = Some t \<and> t (title e) = Inr True \<longrightarrow>
            entry_matches include_labels tre cre e = Inr True)
      \<and> (\<forall>t err. tre = Some t \<and> t (title e) = Inl err \<longrightarrow>
            entry_matches include_labels tre cre e = Inl err)
      \<and> (\<forall>t. tre = Some t \<and> t (title e) = Inr False \<longrightarrow>
            entry_matches include_labels tre cre e = search_opt cre (content e)))
   \<and> search_opt None s = Inr False
   \<and> entry_matches {} None None e = Inr False
   \<and> entry_matches include_labels (compile_keywords title_keywords)
        (compile_keywords content_keywords) e
       = Inr ((\<exists>l\<in>set (labels e). l \<in> include_labels)
              \<or> (\<exists>k\<in>set title_keywords. sublist k (title e))
              \<or> (\<exists>k\<in>set content_keywords. sublist k (content e)))"
proof -
  have compiled: "entry_matches include_labels (compile_keywords title_keywords)
        (compile_keywords content_keywords) e
       = Inr ((\<exists>l\<in>set (labels e). l \<in> include_labels)
              \<or> (\<exists>k\<in>set title_keywords. sublist k (title e))
              \<or> (\<exists>k\<in>set content_keywords. sublist k (content e)))"
    by (auto simp: entry_matches_def search_compiled list_ex_iff split: bool.splits)
  have rest: "(include_labels \<noteq> {} \<and> (\<exists>l\<in>set (labels e). l \<in> include_labels) \<longrightarrow>
      entry_matches include_labels tre cre e = Inr True)
   \<and> (\<not> (\<exists>l\<in>set (labels e). l \<in> include_labels) \<longrightarrow>
        (tre = None \<longrightarrow> entry_matches include_labels tre cre e = search_opt cre (content e))
      \<and> (\<forall>t. tre = Some t \<and> t (title e) = Inr True \<longrightarrow>
            entry_matches include_labels tre cre e = Inr True)
      \<and> (\<forall>t err. tre = Some t \<and> t (title e) = Inl err \<longrightarrow>
            entry_matches include_labels tre cre e = Inl err)
      \<and> (\<forall>t. tre = Some t \<and> t (title e) = Inr False \<longrightarrow>
            entry_matches include_labels tre cre e = search_opt cre (content e)))
   \<and> search_opt None s = Inr False
   \<and> entry_matches {} None None e = Inr False"
    by (auto simp: entry_matches_def search_opt_def list_ex_iff)
  from rest compiled show ?thesis by blast
qed

theorem classifier_order_witness:
  "entry_matches {''film''} (Some raising) (Some raising) film_post = Inr True
   \<and> entry_matches {''film''} None (Some (keyword_re [''read''])) plain_post
       = search_opt (Some (keyword_re [''read''])) (content plain_post)
   \<and> entry_matches {''film''} (Some (keyword_re [''review''])) (Some raising) plain_post = Inr True
   \<and> entry_matches {''film''} (Some raising) None plain_post = Inl ValueError
   \<and> entry_matches {''film''} (Some (keyword_re [''film''])) (Some (keyword_re [''read''])) plain_post
       = search_opt (Some (keyword_re [''read''])) (content plain_post)"
proof -
  have hit: "{''film''} \<noteq> ({}::string set) \<and> (\<exists>l\<in>set (labels film_post). l \<in> {''film''})"
    by (simp add: film_post_def)
  have miss: "\<not> (\<exists>l\<in>set (labels plain_post). l \<in> {''film''})"
    by (simp add: plain_post_def)
  have t1: "keyword_re [''review''] (title plain_post) = Inr True"
    by (simp add: keyword_re_def plain_post_def)
  have t2: "raising (title plain_post) = Inl ValueError"
    by (simp add: raising_def)
  have t3: "keyword_re [''film''] (title plain_post) = Inr False"
    by (simp add: keyword_re_def plain_post_def)
  show ?thesis
    using classifier_order [of "{''film''}" film_post "Some raising" "Some raising"] hit
      classifier_order [of "{''film''}" plain_post None "Some (keyword_re [''read''])"]
      classifier_order [of "{''film''}" plain_post "Some (keyword_re [''review''])" "Some raising"]
      classifier_order [of "{''film''}" plain_post "Some raising" None]
      classifier_order [of "{''film''}" plain_post "Some (keyword_re [''film''])"
        "Some (keyword_re [''read''])"]
      miss t1 t2 t3
    by simp
qed

section \<open>Properties of the gap reporter\<close>

lemma classify_entries_acc:
  "classify_entries L tre cre local es (m0, mi0) = Inr (matched, missing) \<Longrightarrow>
     matched = m0 @ filter (\<lambda>e. entry_matches L tre cre e = Inr True) es
     \<and> missing = mi0 @ filter (\<lambda>r. url r \<notin> local)
                         (filter (\<lambda>e. entry_matches L tre cre e = Inr True) es)"
proof (induction es arbitrary: m0 mi0)
  case Nil
  then show ?case by simp
next
  case (Cons e es)
  show ?case
  proof (cases "entry_matches L tre cre e")
    case (Inl err)
    with Cons.prems show ?thesis by simp
  next
    case (Inr b)
    show ?thesis
    proof (cases b)
      case True
      with Inr Cons.prems
      have "classify_entries L tre cre local es
              (m0 @ [e], if url e \<notin> local then mi0 @ [e] else mi0) = Inr (matched, missing)"
        by simp
      from Cons.IH [OF this] Inr True show ?thesis by simp
    next
      case False
      with Inr Cons.prems
      have "classify_entries L tre cre local es (m0, mi0) = Inr (matched, missing)" by simp
      from Cons.IH [OF this] Inr False show ?thesis by simp
    qed
  qed
qed

lemma parse_entry_url:
  assumes "parse_entry fromiso raw = Inr (Some r)"
  shows "\<exists>href. extract_entry_url (raw_link raw) = Some href \<and> normalize_url href = Inr (url r)"
  using assms
  by (auto simp: parse_entry_def Let_def or_empty_def split: if_splits option.splits sum.splits)

lemma filter_same_key:
  assumes "distinct (map f xs)" and "k \<in> set xs"
  shows "filter (\<lambda>x. f k = f x) xs = [k]"
  using assms
proof (induction xs)
  case Nil
  then show ?case by simp
next
  case (Cons x xs)
  show ?case
  proof (cases "k = x")
    case True
    with Cons.prems(1) have "filter (\<lambda>y. f k = f y) xs = []"
      by (auto simp: filter_empty_conv)
    with True show ?thesis by simp
  next
    case False
    with Cons.prems have kx: "k \<in> set xs" by simp
    then have "f k \<in> f ` set xs" by (rule imageI)
    with Cons.prems(1) have "f k \<noteq> f x" by auto
    with kx Cons show ?thesis by simp
  qed
qed

lemma sort_key_permuted:
  assumes "mset xs = mset ys" and "distinct (map f xs)"
  shows "sort_key f xs = sort_key f ys"
proof -
  have "mset (map f ys) = mset (map f xs)" using assms(1) by simp
  with assms(2) have dy: "distinct (map f ys)" by (metis mset_eq_imp_distinct_iff)
  have "sort_key f ys = sort_key f xs"
  proof (rule properties_for_sort_key)
    show "mset (sort_key f xs) = mset ys" using assms(1) by simp
  next
    fix k assume "k \<in> set (sort_key f xs)"
    then have kx: "k \<in> set xs" by simp
    then have ky: "k \<in> set ys" using assms(1) by (metis mset_eq_setD)
    have "distinct (map f (sort_key f xs))" using assms(2) by (simp add: distinct_map)
    moreover have "k \<in> set (sort_key f xs)" using kx by simp
    ultimately have "filter (\<lambda>x. f k = f x) (sort_key f xs) = [k]" by (rule filter_same_key)
    moreover have "filter (\<lambda>x. f k = f x) ys = [k]" using dy ky by (rule filter_same_key)
    ultimately show "filter (\<lambda>x. f k = f x) (sort_key f xs) = filter (\<lambda>x. f k = f x) ys" by simp
  next
    show "sorted (map f (sort_key f xs))" by simp
  qed
  then show ?thesis by simp
qed

lemma sorted_keys_permuted:
  assumes "mset xs = mset ys"
  shows "map f (sort_key f xs) = map f (sort_key f ys)"
proof -
  have "mset (map f (sort_key f xs)) = mset (map f (sort_key f ys))" using assms by simp
  moreover have "sorted (map f (sort_key f xs))" "sorted (map f (sort_key f ys))" by simp_all
  ultimately show ?thesis by (metis sorted_sort_id sort_key_id_if_sorted properties_for_sort)
qed

lemma entry_matches_compiled:
  "\<exists>b. entry_matches L (compile_keywords tk) (compile_keywords ck) e = Inr b"
  by (cases "\<exists>k\<in>set tk. sublist k (title e)")
    (auto simp: entry_matches_def search_compiled)

lemma classify_entries_total:
  assumes "\<forall>e\<in>set es. \<exists>b. entry_matches L tre cre e = Inr b"
  shows "\<exists>matched missing. classify_entries L tre cre local es (m0, mi0) = Inr (matched, missing)"
  using assms
proof (induction es arbitrary: m0 mi0)
  case Nil
  then show ?case by simp
next
  case (Cons e es)
  then obtain b where b: "entry_matches L tre cre e = Inr b" by auto
  from Cons.prems have rest: "\<forall>e\<in>set es. \<exists>b. entry_matches L tre cre e = Inr b" by simp
  show ?case
  proof (cases b)
    case True
    with b Cons.IH [OF rest, of "m0 @ [e]" "if url e \<notin> local then mi0 @ [e] else mi0"]
    show ?thesis by simp
  next
    case False
    with b Cons.IH [OF rest, of m0 mi0] show ?thesis by simp
  qed
qed

lemma classify_entries_result:
  assumes "\<forall>e\<in>set es. \<exists>b. entry_matches L tre cre e = Inr b"
  shows "classify_entries L tre cre local es ([], [])
           = Inr (filter (\<lambda>e. entry_matches L tre cre e = Inr True) es,
                  filter (\<lambda>r. url r \<notin> local) (filter (\<lambda>e. entry_matches L tre cre e = Inr True) es))"
proof -
  from classify_entries_total [OF assms, of local "[]" "[]"]
  obtain matched missing
    where c: "classify_entries L tre cre local es ([], []) = Inr (matched, missing)" by blast
  from classify_entries_acc [OF c] c show ?thesis by simp
qed

lemma main_output:
  assumes "main fromiso http a fuel = Exit 0 out"
  shows "\<exists>dir local_urls matched missing.
           arg_local a = Some dir \<and> read_local_urls dir = Inr local_urls
           \<and> outcome (iter_recent_posts fromiso (http (arg_base_url a)) (arg_from a) (arg_to a)
                        150 fuel) = Returned
           \<and> matched = filter (\<lambda>e. entry_matches (set (arg_labels a))
                                      (compile_keywords (arg_title_keywords a))
                                      (compile_keywords (arg_content_keywords a)) e = Inr True)
                          (yielded (iter_recent_posts fromiso (http (arg_base_url a)) (arg_from a)
                                      (arg_to a) 150 fuel))
           \<and> missing = filter (\<lambda>r. url r \<notin> local_urls) matched
           \<and> out = render (arg_format a) (make_summary a local_urls matched missing) missing"
proof -
  let ?w = "iter_recent_posts fromiso (http (arg_base_url a)) (arg_from a) (arg_to a) 150 fuel"
  let ?L = "set (arg_labels a)"
  let ?t = "compile_keywords (arg_title_keywords a)"
  let ?c = "compile_keywords (arg_content_keywords a)"
  from assms obtain dir where d: "arg_local a = Some dir"
    by (cases "arg_local a") (simp_all add: main_def)
  from assms d obtain local_urls where l: "read_local_urls dir = Inr local_urls"
    by (cases "read_local_urls dir") (simp_all add: main_def)
  have "\<forall>e\<in>set (yielded ?w). \<exists>b. entry_matches ?L ?t ?c e = Inr b"
    using entry_matches_compiled by blast
  note c = classify_entries_result [OF this, of local_urls]
  from assms d l c have o: "outcome ?w = Returned"
    by (cases "outcome ?w") (simp_all add: main_def Let_def)
  from assms d l c o show ?thesis by (simp add: main_def Let_def)
qed

lemma main_returns:
  assumes "arg_local a = Some dir" and "read_local_urls dir = Inr local_urls"
    and "outcome (iter_recent_posts fromiso (http (arg_base_url a)) (arg_from a) (arg_to a)
                    150 fuel) = Returned"
  shows "\<exists>out. main fromiso http a fuel = Exit 0 out"
proof -
  let ?w = "iter_recent_posts fromiso (http (arg_base_url a)) (arg_from a) (arg_to a) 150 fuel"
  have "\<forall>e\<in>set (yielded ?w). \<exists>b. entry_matches (set (arg_labels a))
           (compile_keywords (arg_title_keywords a)) (compile_keywords (arg_content_keywords a)) e
           = Inr b"
    using entry_matches_compiled by blast
  note c = classify_entries_result [OF this, of local_urls]
  from assms c show ?thesis by (simp add: main_def Let_def)
qed

text \<open>
  The scenario of the whole audit: the archive \<open>example_dir\<close> knows \<open>http://e.com/1\<close>; the
  feed serves \<open>p1\<close> and \<open>p2\<close> in the window, both matched by the title keyword; the text
  report counts one local URL, two matched and one missing record, and lists \<open>p2\<close> alone.
\<close>

lemma main_example:
  "main fromisoformat_date (\<lambda>base. three_pages) example_args 2 =
     Exit 0 (render Text
               \<lparr>base_url = ''http://e.com'', from_date = (2024, 3, 1), to_date = (2024, 3, 31),
                local_dir = ''articles'', local_count = 1, matched_count = 2, missing_count = 1\<rparr>
               [example_post ''p2'' ''http://e.com/2'' (2024, 3, 5)])"
  by code_simp

lemma sorted_missing_twice: "sorted_missing (sorted_missing missing) = sorted_missing missing"
  unfolding sorted_missing_def by (rule sort_key_id_if_sorted) simp

lemma encoded_parse:
  "parse_entry fromisoformat_date (example_raw ''p'' ''http://e.com/a%252fb'' ''2024-03-06T08:00:00Z'')
     = Inr (Some (example_post ''p'' ''http://e.com/a%2fb'' (2024, 3, 6)))"
  by code_simp

subsection \<open>Claim C6\<close>

text \<open>
  C6, as the code has it. The loop compares the URL the record carries, which the walker
  normalised once, with the index; it does not normalise that URL again. A feed link
  \<open>http://e.com/a%252fb\<close> gives a record with the URL \<open>http://e.com/a%2fb\<close>; the archive's
  line with the same link gives the index \<open>{http://e.com/a%2fb}\<close>; the record is matched and
  not missing, and the report counts no missing record. Normalising the record's URL again
  gives \<open>http://e.com/a/b\<close>, which is not in the index.
\<close>

theorem gap_compares_stored_url:
  "parse_entry fromisoformat_date (example_raw ''p'' ''http://e.com/a%252fb'' ''2024-03-06T08:00:00Z'')
     = Inr (Some (example_post ''p'' ''http://e.com/a%2fb'' (2024, 3, 6)))
   \<and> read_local_urls encoded_dir = Inr {''http://e.com/a%2fb''}
   \<and> classify_entries {} (compile_keywords [''p'']) None {''http://e.com/a%2fb''}
        [example_post ''p'' ''http://e.com/a%2fb'' (2024, 3, 6)] ([], [])
      = Inr ([example_post ''p'' ''http://e.com/a%2fb'' (2024, 3, 6)], [])
   \<and> normalize_url (url (example_post ''p'' ''http://e.com/a%2fb'' (2024, 3, 6)))
      = Inr ''http://e.com/a/b''
   \<and> ''http://e.com/a/b'' \<notin> {''http://e.com/a%2fb''}
   \<and> set ([] :: FeedEntry list)
      \<noteq> {r \<in> set [example_post ''p'' ''http://e.com/a%2fb'' (2024, 3, 6)].
           \<exists>u. normalize_url (url r) = Inr u \<and> u \<notin> {''http://e.com/a%2fb''}}
   \<and> main fromisoformat_date (\<lambda>base. encoded_feed) encoded_args 2 =
     Exit 0
      (''{'' @ [CHR 0x22] @ ''base_url'' @ [CHR 0x22] @ '': '' @ [CHR 0x22] @
         ''http://e.com'' @ [CHR 0x22] @ '', '' @ [CHR 0x22] @ ''from'' @ [CHR 0x22] @
         '': '' @ [CHR 0x22] @ ''2024-03-01'' @ [CHR 0x22] @ '', '' @ [CHR 0x22] @
         ''to'' @ [CHR 0x22] @ '': '' @ [CHR 0x22] @ ''2024-03-31'' @ [CHR 0x22] @
         '', '' @ [CHR 0x22] @ ''local_dir'' @ [CHR 0x22] @ '': '' @ [CHR 0x22] @
         ''articles'' @ [CHR 0x22] @ '', '' @ [CHR 0x22] @ ''local_count'' @
         [CHR 0x22] @ '': 1, '' @ [CHR 0x22] @ ''matched_count'' @ [CHR 0x22] @
         '': 1, '' @ [CHR 0x22] @ ''missing_count'' @ [CHR 0x22] @ '': 0}'' @ [CHR 0x0A])"
proof -
  let ?r = "example_post ''p'' ''http://e.com/a%2fb'' (2024, 3, 6)"
  have b: "read_local_urls encoded_dir = Inr {''http://e.com/a%2fb''}" by code_simp
  have c: "classify_entries {} (compile_keywords [''p'']) None {''http://e.com/a%2fb''}
        [?r] ([], []) = Inr ([?r], [])"
    by code_simp
  have d: "normalize_url (url ?r) = Inr ''http://e.com/a/b''" by code_simp
  have e: "''http://e.com/a/b'' \<notin> {''http://e.com/a%2fb''}" by simp
  from d e have "?r \<in> {r \<in> set [?r]. \<exists>u. normalize_url (url r) = Inr u \<and> u \<notin> {''http://e.com/a%2fb''}}"
    by simp
  then have f: "set ([] :: FeedEntry list)
      \<noteq> {r \<in> set [?r]. \<exists>u. normalize_url (url r) = Inr u \<and> u \<notin> {''http://e.com/a%2fb''}}"
    by (metis empty_iff empty_set)
  have g: "main fromisoformat_date (\<lambda>base. encoded_feed) encoded_args 2 =
     Exit 0
      (''{'' @ [CHR 0x22] @ ''base_url'' @ [CHR 0x22] @ '': '' @ [CHR 0x22] @
         ''http://e.com'' @ [CHR 0x22] @ '', '' @ [CHR 0x22] @ ''from'' @ [CHR 0x22] @
         '': '' @ [CHR 0x22] @ ''2024-03-01'' @ [CHR 0x22] @ '', '' @ [CHR 0x22] @
         ''to'' @ [CHR 0x22] @ '': '' @ [CHR 0x22] @ ''2024-03-31'' @ [CHR 0x22] @
         '', '' @ [CHR 0x22] @ ''local_dir'' @ [CHR 0x22] @ '': '' @ [CHR 0x22] @
         ''articles'' @ [CHR 0x22] @ '', '' @ [CHR 0x22] @ ''local_count'' @
         [CHR 0x22] @ '': 1, '' @ [CHR 0x22] @ ''matched_count'' @ [CHR 0x22] @
         '': 1, '' @ [CHR 0x22] @ ''missing_count'' @ [CHR 0x22] @ '': 0}'' @ [CHR 0x0A])"
    by code_simp
  from encoded_parse b c d e f g show ?thesis by blast
qed

text \<open>
  C6, amended. When the loop of \<open>main\<close> ends, \<open>matched\<close> is the list of the yielded entries
  that the classifier accepts, in the order of arrival, and \<open>missing\<close> is the list (and the
  set) of the matched records whose URL is not in the local index; that URL is the
  normalised form of the feed entry's link, as the walker stored it, and it is compared as
  stored. Where every matched record's URL normalises to itself, this is the set of the
  matched records whose normalised URL is not in the index. With the patterns \<open>main\<close>
  compiles the loop never raises, and what \<open>main\<close> writes on success is a rendering of
  this list. Every rendering lists \<open>sorted_missing missing\<close>, which is \<open>missing\<close> rearranged
  in ascending order of (published date, URL); the order of the keys does not depend on the
  order in which the records arrived, and when no two records share a key neither does any
  rendering.
\<close>

theorem gap_report:
  "(classify_entries include_labels tre cre local_urls entries ([], []) = Inr (matched, missing)
      \<longrightarrow> matched = filter (\<lambda>e. entry_matches include_labels tre cre e = Inr True) entries
        \<and> missing = filter (\<lambda>r. url r \<notin> local_urls) matched
        \<and> set missing = {r \<in> set matched. url r \<notin> local_urls}
        \<and> ((\<forall>r\<in>set matched. normalize_url (url r) = Inr (url r)) \<longrightarrow>
              set missing
                = {r \<in> set matched. \<exists>u. normalize_url (url r) = Inr u \<and> u \<notin> local_urls}))
   \<and> classify_entries include_labels (compile_keywords title_keywords)
         (compile_keywords content_keywords) local_urls entries ([], [])
       = Inr (filter (\<lambda>e. entry_matches include_labels (compile_keywords title_keywords)
                            (compile_keywords content_keywords) e = Inr True) entries,
              filter (\<lambda>r. url r \<notin> local_urls)
                (filter (\<lambda>e. entry_matches include_labels (compile_keywords title_keywords)
                               (compile_keywords content_keywords) e = Inr True) entries))
   \<and> (main fromiso http a fuel = Exit 0 out \<longrightarrow>
        (\<exists>dir index s.
           arg_local a = Some dir \<and> read_local_urls dir = Inr index
           \<and> out = render (arg_format a) s
                (filter (\<lambda>r. url r \<notin> index)
                   (filter (\<lambda>e. entry_matches (set (arg_labels a))
                                   (compile_keywords (arg_title_keywords a))
                                   (compile_keywords (arg_content_keywords a)) e = Inr True)
                      (yielded (iter_recent_posts fromiso (http (arg_base_url a)) (arg_from a)
                                  (arg_to a) 150 fuel))))))
   \<and> (parse_entry fromiso raw = Inr (Some r) \<longrightarrow>
        (\<exists>href. extract_entry_url (raw_link raw) = Some href \<and> normalize_url href = Inr (url r)))
   \<and> sorted (map (\<lambda>x. (published x, url x)) (sorted_missing missing))
   \<and> mset (sorted_missing missing) = mset missing
   \<and> (mset arrived = mset missing \<longrightarrow>
        map (\<lambda>x. (published x, url x)) (sorted_missing arrived)
          = map (\<lambda>x. (published x, url x)) (sorted_missing missing))
   \<and> (mset arrived = mset missing \<and> distinct (map (\<lambda>x. (published x, url x)) missing) \<longrightarrow>
        render fmt s arrived = render fmt s missing)
   \<and> render fmt s missing = render fmt s (sorted_missing missing)
   \<and> write_text s missing =
       dumps (JObject (summary_items s)) @ [CHR 0x0A]
         @ concat (map text_row (sorted_missing missing))
   \<and> write_json s missing =
       dumps_indent 0 (JObject (summary_items s
         @ [(''missing'', JArray (map json_row (sorted_missing missing)))])) @ [CHR 0x0A]
   \<and> write_csv missing =
       csv_row [''published'', ''title'', ''url'', ''labels'']
         @ concat (map (\<lambda>e. csv_row (csv_fields e)) (sorted_missing missing))"
proof -
  have a: "classify_entries include_labels tre cre local_urls entries ([], []) = Inr (matched, missing)
      \<longrightarrow> matched = filter (\<lambda>e. entry_matches include_labels tre cre e = Inr True) entries
        \<and> missing = filter (\<lambda>r. url r \<notin> local_urls) matched
        \<and> set missing = {r \<in> set matched. url r \<notin> local_urls}
        \<and> ((\<forall>r\<in>set matched. normalize_url (url r) = Inr (url r)) \<longrightarrow>
              set missing
                = {r \<in> set matched. \<exists>u. normalize_url (url r) = Inr u \<and> u \<notin> local_urls})"
  proof
    assume "classify_entries include_labels tre cre local_urls entries ([], []) = Inr (matched, missing)"
    from classify_entries_acc [OF this]
    have m: "matched = filter (\<lambda>e. entry_matches include_labels tre cre e = Inr True) entries"
      and mi: "missing = filter (\<lambda>r. url r \<notin> local_urls) matched"
      by simp_all
    from mi have s: "set missing = {r \<in> set matched. url r \<notin> local_urls}" by auto
    have "(\<forall>r\<in>set matched. normalize_url (url r) = Inr (url r)) \<longrightarrow>
              set missing
                = {r \<in> set matched. \<exists>u. normalize_url (url r) = Inr u \<and> u \<notin> local_urls}"
      unfolding s by auto
    with m mi s show "matched = filter (\<lambda>e. entry_matches include_labels tre cre e = Inr True) entries
        \<and> missing = filter (\<lambda>r. url r \<notin> local_urls) matched
        \<and> set missing = {r \<in> set matched. url r \<notin> local_urls}
        \<and> ((\<forall>r\<in>set matched. normalize_url (url r) = Inr (url r)) \<longrightarrow>
              set missing
                = {r \<in> set matched. \<exists>u. normalize_url (url r) = Inr u \<and> u \<notin> local_urls})"
      by blast
  qed
  have t: "classify_entries include_labels (compile_keywords title_keywords)
         (compile_keywords content_keywords) local_urls entries ([], [])
       = Inr (filter (\<lambda>e. entry_matches include_labels (compile_keywords title_keywords)
                            (compile_keywords content_keywords) e = Inr True) entries,
              filter (\<lambda>r. url r \<notin> local_urls)
                (filter (\<lambda>e. entry_matches include_labels (compile_keywords title_keywords)
                               (compile_keywords content_keywords) e = Inr True) entries))"
    by (rule classify_entries_result) (use entry_matches_compiled in blast)
  have mn: "main fromiso http a fuel = Exit 0 out \<longrightarrow>
        (\<exists>dir index s.
           arg_local a = Some dir \<and> read_local_urls dir = Inr index
           \<and> out = render (arg_format a) s
                (filter (\<lambda>r. url r \<notin> index)
                   (filter (\<lambda>e. entry_matches (set (arg_labels a))
                                   (compile_keywords (arg_title_keywords a))
                                   (compile_keywords (arg_content_keywords a)) e = Inr True)
                      (yielded (iter_recent_posts fromiso (http (arg_base_url a)) (arg_from a)
                                  (arg_to a) 150 fuel)))))"
  proof
    assume "main fromiso http a fuel = Exit 0 out"
    from main_output [OF this] show "\<exists>dir index s.
           arg_local a = Some dir \<and> read_local_urls dir = Inr index
           \<and> out = render (arg_format a) s
                (filter (\<lambda>r. url r \<notin> index)
                   (filter (\<lambda>e. entry_matches (set (arg_labels a))
                                   (compile_keywords (arg_title_keywords a))
                                   (compile_keywords (arg_content_keywords a)) e = Inr True)
                      (yielded (iter_recent_posts fromiso (http (arg_base_url a)) (arg_from a)
                                  (arg_to a) 150 fuel))))"
      by blast
  qed
  have b: "mset arrived = mset missing \<and> distinct (map (\<lambda>x. (published x, url x)) missing) \<longrightarrow>
        render fmt s arrived = render fmt s missing"
  proof
    assume h: "mset arrived = mset missing \<and> distinct (map (\<lambda>x. (published x, url x)) missing)"
    then have "sorted_missing missing = sorted_missing arrived"
      unfolding sorted_missing_def by (intro sort_key_permuted) simp_all
    then show "render fmt s arrived = render fmt s missing"
      by (simp add: render_def write_text_def write_json_def write_csv_def split: format.splits)
  qed
  have c: "mset arrived = mset missing \<longrightarrow>
        map (\<lambda>x. (published x, url x)) (sorted_missing arrived)
          = map (\<lambda>x. (published x, url x)) (sorted_missing missing)"
    unfolding sorted_missing_def using sorted_keys_permuted by blast
  have d: "render fmt s missing = render fmt s (sorted_missing missing)"
    by (simp add: render_def write_text_def write_json_def write_csv_def sorted_missing_twice
          split: format.splits)
  have e: "sorted (map (\<lambda>x. (published x, url x)) (sorted_missing missing))"
    "mset (sorted_missing missing) = mset missing"
    by (simp_all add: sorted_missing_def)
  have f: "write_text s missing =
       dumps (JObject (summary_items s)) @ [CHR 0x0A]
         @ concat (map text_row (sorted_missing missing))"
    "write_json s missing =
       dumps_indent 0 (JObject (summary_items s
         @ [(''missing'', JArray (map json_row (sorted_missing missing)))])) @ [CHR 0x0A]"
    "write_csv missing =
       csv_row [''published'', ''title'', ''url'', ''labels'']
         @ concat (map (\<lambda>e. csv_row (csv_fields e)) (sorted_missing missing))"
    by (simp_all only: write_text_def write_json_def write_csv_def)
  note p = parse_entry_url [of fromiso raw r]
  show ?thesis
    apply (rule conjI, rule a)
    apply (rule conjI, rule t)
    apply (rule conjI, rule mn)
    apply (rule conjI, rule impI, erule p)
    apply (rule conjI, rule e(1))
    apply (rule conjI, rule e(2))
    apply (rule conjI, rule c)
    apply (rule conjI, rule b)
    apply (rule conjI, rule d)
    apply (rule conjI, rule f(1))
    apply (rule conjI, rule f(2))
    apply (rule f(3))
    done
qed

theorem gap_report_witness:
  "classify_entries {''film'', ''misc''} None None {''http://e.com/1''}
     [film_post, plain_post] ([], []) = Inr ([film_post, plain_post], [plain_post])
   \<and> [film_post, plain_post]
     = filter (\<lambda>e. entry_matches {''film'', ''misc''} None None e = Inr True) [film_post, plain_post]
   \<and> [plain_post] = filter (\<lambda>r. url r \<notin> {''http://e.com/1''}) [film_post, plain_post]
   \<and> set [plain_post] = {r \<in> set [film_post, plain_post]. url r \<notin> {''http://e.com/1''}}
   \<and> set [plain_post]
       = {r \<in> set [film_post, plain_post].
            \<exists>u. normalize_url (url r) = Inr u \<and> u \<notin> {''http://e.com/1''}}
   \<and> (\<exists>dir index s.
         arg_local example_args = Some dir \<and> read_local_urls dir = Inr index
         \<and> render Text
             \<lparr>base_url = ''http://e.com'', from_date = (2024, 3, 1), to_date = (2024, 3, 31),
              local_dir = ''articles'', local_count = 1, matched_count = 2, missing_count = 1\<rparr>
             [example_post ''p2'' ''http://e.com/2'' (2024, 3, 5)]
           = render (arg_format example_args) s
               (filter (\<lambda>r. url r \<notin> index)
                  (filter (\<lambda>e. entry_matches (set (arg_labels example_args))
                                  (compile_keywords (arg_title_keywords example_args))
                                  (compile_keywords (arg_content_keywords example_args)) e = Inr True)
                     (yielded (iter_recent_posts fromisoformat_date three_pages
                                 (arg_from example_args) (arg_to example_args) 150 2)))))
   \<and> (\<exists>href. extract_entry_url
                 (raw_link (example_raw ''p1'' ''http://e.com/1'' ''2024-03-06T08:00:00Z''))
               = Some href
             \<and> normalize_url href = Inr (url (example_post ''p1'' ''http://e.com/1'' (2024, 3, 6))))
   \<and> map (\<lambda>x. (published x, url x)) (sorted_missing [film_post, plain_post])
       = map (\<lambda>x. (published x, url x)) (sorted_missing [plain_post, film_post])
   \<and> render Text summary_a [film_post, plain_post] = render Text summary_a [plain_post, film_post]"
proof -
  have run: "classify_entries {''film'', ''misc''} None None {''http://e.com/1''}
               [film_post, plain_post] ([], []) = Inr ([film_post, plain_post], [plain_post])"
    by (simp add: entry_matches_def film_post_def plain_post_def)
  have n1: "normalize_url ''http://e.com/1'' = Inr ''http://e.com/1''" by code_simp
  have n2: "normalize_url ''http://e.com/2'' = Inr ''http://e.com/2''" by code_simp
  have fixed: "\<forall>r\<in>set [film_post, plain_post]. normalize_url (url r) = Inr (url r)"
    by (simp add: film_post_def plain_post_def n1 n2)
  have perm: "mset [film_post, plain_post] = mset [plain_post, film_post]"
    by simp
  have keys: "distinct (map (\<lambda>x. (published x, url x)) [plain_post, film_post])"
    by (simp add: film_post_def plain_post_def)
  note c1 = mp [OF conjunct1 [OF gap_report] run]
  note c1a = conjunct1 [OF c1]
  note c1b = conjunct1 [OF conjunct2 [OF c1]]
  note c1c = conjunct1 [OF conjunct2 [OF conjunct2 [OF c1]]]
  note c1d = mp [OF conjunct2 [OF conjunct2 [OF conjunct2 [OF c1]]] fixed]
  have c2: "\<exists>dir index s.
         arg_local example_args = Some dir \<and> read_local_urls dir = Inr index
         \<and> render Text
             \<lparr>base_url = ''http://e.com'', from_date = (2024, 3, 1), to_date = (2024, 3, 31),
              local_dir = ''articles'', local_count = 1, matched_count = 2, missing_count = 1\<rparr>
             [example_post ''p2'' ''http://e.com/2'' (2024, 3, 5)]
           = render (arg_format example_args) s
               (filter (\<lambda>r. url r \<notin> index)
                  (filter (\<lambda>e. entry_matches (set (arg_labels example_args))
                                  (compile_keywords (arg_title_keywords example_args))
                                  (compile_keywords (arg_content_keywords example_args)) e = Inr True)
                     (yielded (iter_recent_posts fromisoformat_date three_pages
                                 (arg_from example_args) (arg_to example_args) 150 2))))"
    by (rule mp [OF conjunct1 [OF conjunct2 [OF conjunct2 [OF gap_report]]] main_example])
  have c3: "\<exists>href. extract_entry_url
                 (raw_link (example_raw ''p1'' ''http://e.com/1'' ''2024-03-06T08:00:00Z''))
               = Some href
             \<and> normalize_url href = Inr (url (example_post ''p1'' ''http://e.com/1'' (2024, 3, 6)))"
    by (rule mp [OF conjunct1 [OF conjunct2 [OF conjunct2 [OF conjunct2 [OF gap_report]]]]
          example_parse(1)])
  have c4: "map (\<lambda>x. (published x, url x)) (sorted_missing [film_post, plain_post])
       = map (\<lambda>x. (published x, url x)) (sorted_missing [plain_post, film_post])"
    by (rule mp [OF conjunct1 [OF conjunct2 [OF conjunct2 [OF conjunct2 [OF conjunct2
          [OF conjunct2 [OF conjunct2 [OF gap_report]]]]]]] perm])
  have c5: "render Text summary_a [film_post, plain_post]
              = render Text summary_a [plain_post, film_post]"
    by (rule mp [OF conjunct1 [OF conjunct2 [OF conjunct2 [OF conjunct2 [OF conjunct2
          [OF conjunct2 [OF conjunct2 [OF conjunct2 [OF gap_report]]]]]]]] conjI [OF perm keys]])
  from run c1a c1b c1c c1d c2 c3 c4 c5 show ?thesis by blast
qed

section \<open>Properties of the renderings\<close>

lemma decimal_chars:
  "c \<in> set (decimal n) \<Longrightarrow> c = CHR ''-'' \<or> (CHR ''0'' \<le> c \<and> c \<le> CHR ''9'')"
proof (induction n arbitrary: c rule: decimal.induct)
  case (1 n)
  have d: "CHR ''0'' \<le> char_of (48 + k) \<and> char_of (48 + k) \<le> CHR ''9''"
    if "0 \<le> k" "k < 10" for k :: int
  proof -
    from that have "k = 0 \<or> k = 1 \<or> k = 2 \<or> k = 3 \<or> k = 4 \<or> k = 5 \<or> k = 6 \<or> k = 7
        \<or> k = 8 \<or> k = 9" by arith
    moreover have "list_all (\<lambda>k. CHR ''0'' \<le> char_of (48 + k) \<and> char_of (48 + k) \<le> CHR ''9'')
        [0, 1, 2, 3, 4, 5, 6, 7, 8, 9 :: int]" by code_simp
    ultimately show ?thesis by (elim disjE) simp_all
  qed
  consider "n < 0" | "0 \<le> n" "n < 10" | "10 \<le> n" by linarith
  then show ?case
  proof cases
    case 1
    with "1.prems" have "c = CHR ''-'' \<or> c \<in> set (decimal (- n))"
      by (subst (asm) decimal.simps) auto
    with "1.IH"(1) 1 show ?thesis by auto
  next
    case 2
    with "1.prems" d [of n] show ?thesis by (subst (asm) decimal.simps) simp
  next
    case 3
    with "1.prems" have "c \<in> set (decimal (n div 10)) \<or> c = char_of (48 + n mod 10)"
      by (subst (asm) decimal.simps) auto
    with "1.IH"(2) 3 d [of "n mod 10"] show ?thesis by auto
  qed
qed

lemma decimal_no_newline: "CHR 0x0A \<notin> set (decimal n)"
  using decimal_chars [of "CHR 0x0A" n] by (auto simp: less_eq_char_def)

lemma hex_no_newline: "i < 16 \<Longrightarrow> ''0123456789abcdef'' ! i \<noteq> CHR 0x0A"
proof -
  assume "i < 16"
  then have "''0123456789abcdef'' ! i \<in> set ''0123456789abcdef''"
    by (intro nth_mem) simp
  then show ?thesis by auto
qed

lemma json_escape_no_newline: "CHR 0x0A \<notin> set (json_escape_char c)"
proof -
  have "(of_char c :: nat) < 16 * 16" by simp
  then have "of_char c div 16 < (16::nat)" by (rule less_mult_imp_div_less)
  then show ?thesis
    using hex_no_newline [of "of_char c div 16"] hex_no_newline [of "of_char c mod 16"]
    by (simp add: json_escape_char_def)
qed

lemma json_string_no_newline: "CHR 0x0A \<notin> set (json_string s)"
  by (simp add: json_string_def json_escape_no_newline)

lemma summary_line_no_newline: "CHR 0x0A \<notin> set (dumps (JObject (summary_items s)))"
  by (simp add: summary_items_def json_string_no_newline decimal_no_newline)

lemma first_line:
  assumes "c \<notin> set xs"
  shows "takeWhile (\<lambda>x. x \<noteq> c) (xs @ c # ys) = xs"
  using assms by (induction xs) auto

lemma join_snoc: "xs \<noteq> [] \<Longrightarrow> join sep (xs @ [y]) = join sep xs @ sep @ y"
  by (induction sep xs rule: join.induct) simp_all


subsection \<open>Claim C3\<close>

text \<open>
  C3, as the code has it. The csv rendering does not include the summary: two runs with
  different counts and a different date window, and the same missing list, write the same
  csv text, which is the header row and one row for the missing record.
\<close>

theorem csv_has_no_summary:
  "render Csv summary_a [plain_post] = render Csv summary_b [plain_post]
   \<and> summary_a \<noteq> summary_b
   \<and> render Csv summary_a [plain_post]
       = ''published,title,url,labels'' @ [CHR 0x0D, CHR 0x0A]
         @ ''2024-03-05,A book review,http://e.com/2,misc'' @ [CHR 0x0D, CHR 0x0A]"
proof -
  have "render Csv summary_a [plain_post]
       = ''published,title,url,labels'' @ [CHR 0x0D, CHR 0x0A]
         @ ''2024-03-05,A book review,http://e.com/2,misc'' @ [CHR 0x0D, CHR 0x0A]"
    by code_simp
  moreover have "summary_a \<noteq> summary_b"
    by (simp add: summary_a_def summary_b_def)
  ultimately show ?thesis by (simp add: render_def)
qed

text \<open>
  C3, amended. The text rendering is the summary as a JSON object on the first line,
  then one line for each missing record in sorted order: date, title, URL and the labels
  joined by commas, separated by tabs. The json rendering is one object: the summary's seven
  members, then the member \<open>missing\<close>, the array of the missing records in sorted order, each
  with its date, title, URL and labels. The csv rendering is the header row and one row for
  each missing record in sorted order, the same whatever the summary. Each rendering depends
  on the missing list only through its sorted form. The summary holds the base URL, the date
  window, the directory and the three counts; in a run of \<open>main\<close> that succeeds these are the
  command line's, the size of the local index, the number of yielded entries the classifier
  accepts and the number of those whose URL is not in the index; and \<open>main\<close> succeeds when
  the directory is read and the walk returns. The sorted form is the missing list
  rearranged in ascending order of (published date, URL). On the feed \<open>three_pages\<close> and the
  archive \<open>example_dir\<close> the three reports are the texts below, byte for byte.
\<close>

theorem renderings_project:
  "render Text s missing =
     dumps (JObject (summary_items s)) @ [CHR 0x0A]
       @ concat (map (\<lambda>e. isoformat (published e) @ [CHR 0x09] @ title e @ [CHR 0x09] @ url e
                          @ [CHR 0x09] @ join '','' (labels e) @ [CHR 0x0A])
                   (sorted_missing missing))
   \<and> takeWhile (\<lambda>c. c \<noteq> CHR 0x0A) (render Text s missing) = dumps (JObject (summary_items s))
   \<and> render Json s missing =
       dumps_indent 0
         (JObject (summary_items s
            @ [(''missing'',
                JArray (map (\<lambda>e. JObject [(''published'', JString (isoformat (published e))),
                                           (''title'', JString (title e)),
                                           (''url'', JString (url e)),
                                           (''labels'', JArray (map JString (labels e)))])
                          (sorted_missing missing)))]))
         @ [CHR 0x0A]
   \<and> prefix
        (''{'' @ newline_indent 1
           @ join ('','' @ newline_indent 1)
               (map (\<lambda>kv. json_string (fst kv) @ '': '' @ dumps_indent 1 (snd kv)) (summary_items s))
           @ '','' @ newline_indent 1 @ json_string ''missing'' @ '': '')
        (render Json s missing)
   \<and> render Csv s missing =
       csv_row [''published'', ''title'', ''url'', ''labels'']
         @ concat (map (\<lambda>e. csv_row [isoformat (published e), title e, url e,
                                      join '','' (labels e)])
                     (sorted_missing missing))
   \<and> render Csv s missing = render Csv s' missing
   \<and> (sorted_missing missing = sorted_missing missing' \<longrightarrow>
        render fmt s missing = render fmt s missing')
   \<and> summary_items s =
       [(''base_url'', JString (base_url s)),
        (''from'', JString (isoformat (from_date s))),
        (''to'', JString (isoformat (to_date s))),
        (''local_dir'', JString (local_dir s)),
        (''local_count'', JInt (int (local_count s))),
        (''matched_count'', JInt (int (matched_count s))),
        (''missing_count'', JInt (int (missing_count s)))]
   \<and> (main fromiso http a fuel = Exit 0 out \<longrightarrow>
        (\<exists>dir index matched missing.
           arg_local a = Some dir \<and> read_local_urls dir = Inr index
           \<and> outcome (iter_recent_posts fromiso (http (arg_base_url a)) (arg_from a) (arg_to a)
                        150 fuel) = Returned
           \<and> matched = filter (\<lambda>e. entry_matches (set (arg_labels a))
                                      (compile_keywords (arg_title_keywords a))
                                      (compile_keywords (arg_content_keywords a)) e = Inr True)
                          (yielded (iter_recent_posts fromiso (http (arg_base_url a)) (arg_from a)
                                      (arg_to a) 150 fuel))
           \<and> missing = filter (\<lambda>r. url r \<notin> index) matched
           \<and> out = render (arg_format a)
                     \<lparr>base_url = arg_base_url a, from_date = arg_from a, to_date = arg_to a,
                      local_dir = arg_local_dir a, local_count = card index,
                      matched_count = length matched, missing_count = length missing\<rparr>
                     missing))
   \<and> (arg_local a = Some dir \<and> read_local_urls dir = Inr index
        \<and> outcome (iter_recent_posts fromiso (http (arg_base_url a)) (arg_from a) (arg_to a)
                     150 fuel) = Returned \<longrightarrow>
        (\<exists>out. main fromiso http a fuel = Exit 0 out))
   \<and> sorted (map (\<lambda>x. (published x, url x)) (sorted_missing missing))
   \<and> mset (sorted_missing missing) = mset missing
   \<and> main fromisoformat_date (\<lambda>base. three_pages) example_args 2 =
     Exit 0
      (''{'' @ [CHR 0x22] @ ''base_url'' @ [CHR 0x22] @ '': '' @ [CHR 0x22] @
         ''http://e.com'' @ [CHR 0x22] @ '', '' @ [CHR 0x22] @ ''from'' @ [CHR 0x22] @
         '': '' @ [CHR 0x22] @ ''2024-03-01'' @ [CHR 0x22] @ '', '' @ [CHR 0x22] @
         ''to'' @ [CHR 0x22] @ '': '' @ [CHR 0x22] @ ''2024-03-31'' @ [CHR 0x22] @
         '', '' @ [CHR 0x22] @ ''local_dir'' @ [CHR 0x22] @ '': '' @ [CHR 0x22] @
         ''articles'' @ [CHR 0x22] @ '', '' @ [CHR 0x22] @ ''local_count'' @
         [CHR 0x22] @ '': 1, '' @ [CHR 0x22] @ ''matched_count'' @ [CHR 0x22] @
         '': 2, '' @ [CHR 0x22] @ ''missing_count'' @ [CHR 0x22] @ '': 1}'' @
         [CHR 0x0A] @ ''2024-03-05'' @ [CHR 0x09] @ ''p2'' @ [CHR 0x09] @
         ''http://e.com/2'' @ [CHR 0x09] @ [CHR 0x0A])
   \<and> main fromisoformat_date (\<lambda>base. three_pages) (example_args\<lparr>arg_format := Json\<rparr>) 2 =
     Exit 0
      (''{'' @ [CHR 0x0A] @ ''  '' @ [CHR 0x22] @ ''base_url'' @ [CHR 0x22] @ '': '' @
         [CHR 0x22] @ ''http://e.com'' @ [CHR 0x22] @ '','' @ [CHR 0x0A] @ ''  '' @
         [CHR 0x22] @ ''from'' @ [CHR 0x22] @ '': '' @ [CHR 0x22] @ ''2024-03-01'' @
         [CHR 0x22] @ '','' @ [CHR 0x0A] @ ''  '' @ [CHR 0x22] @ ''to'' @ [CHR 0x22] @
         '': '' @ [CHR 0x22] @ ''2024-03-31'' @ [CHR 0x22] @ '','' @ [CHR 0x0A] @
         ''  '' @ [CHR 0x22] @ ''local_dir'' @ [CHR 0x22] @ '': '' @ [CHR 0x22] @
         ''articles'' @ [CHR 0x22] @ '','' @ [CHR 0x0A] @ ''  '' @ [CHR 0x22] @
         ''local_count'' @ [CHR 0x22] @ '': 1,'' @ [CHR 0x0A] @ ''  '' @ [CHR 0x22] @
         ''matched_count'' @ [CHR 0x22] @ '': 2,'' @ [CHR 0x0A] @ ''  '' @ [CHR 0x22] @
         ''missing_count'' @ [CHR 0x22] @ '': 1,'' @ [CHR 0x0A] @ ''  '' @ [CHR 0x22] @
         ''missing'' @ [CHR 0x22] @ '': ['' @ [CHR 0x0A] @ ''    {'' @ [CHR 0x0A] @
         ''      '' @ [CHR 0x22] @ ''published'' @ [CHR 0x22] @ '': '' @ [CHR 0x22] @
         ''2024-03-05'' @ [CHR 0x22] @ '','' @ [CHR 0x0A] @ ''      '' @ [CHR 0x22] @
         ''title'' @ [CHR 0x22] @ '': '' @ [CHR 0x22] @ ''p2'' @ [CHR 0x22] @ '','' @
         [CHR 0x0A] @ ''      '' @ [CHR 0x22] @ ''url'' @ [CHR 0x22] @ '': '' @
         [CHR 0x22] @ ''http://e.com/2'' @ [CHR 0x22] @ '','' @ [CHR 0x0A] @
         ''      '' @ [CHR 0x22] @ ''labels'' @ [CHR 0x22] @ '': []'' @ [CHR 0x0A] @
         ''    }'' @ [CHR 0x0A] @ ''  ]'' @ [CHR 0x0A] @ ''}'' @ [CHR 0x0A])
   \<and> main fromisoformat_date (\<lambda>base. three_pages) (example_args\<lparr>arg_format := Csv\<rparr>) 2 =
     Exit 0
      (''published,title,url,labels'' @ [CHR 0x0D] @ [CHR 0x0A] @
         ''2024-03-05,p2,http://e.com/2,'' @ [CHR 0x0D] @ [CHR 0x0A])"
proof -
  have x: "render Text s missing =
     dumps (JObject (summary_items s)) @ [CHR 0x0A]
       @ concat (map (\<lambda>e. isoformat (published e) @ [CHR 0x09] @ title e @ [CHR 0x09] @ url e
                          @ [CHR 0x09] @ join '','' (labels e) @ [CHR 0x0A])
                   (sorted_missing missing))"
  proof -
    have "text_row = (\<lambda>e. isoformat (published e) @ [CHR 0x09] @ title e @ [CHR 0x09] @ url e
                          @ [CHR 0x09] @ join '','' (labels e) @ [CHR 0x0A])"
      by (rule ext) (simp only: text_row_def)
    then show ?thesis by (simp only: render_def write_text_def format.case)
  qed
  have t: "takeWhile (\<lambda>c. c \<noteq> CHR 0x0A) (render Text s missing)
             = dumps (JObject (summary_items s))"
    unfolding render_def write_text_def
    using first_line [OF summary_line_no_newline, of s] by simp
  have y: "render Json s missing =
       dumps_indent 0
         (JObject (summary_items s
            @ [(''missing'',
                JArray (map (\<lambda>e. JObject [(''published'', JString (isoformat (published e))),
                                           (''title'', JString (title e)),
                                           (''url'', JString (url e)),
                                           (''labels'', JArray (map JString (labels e)))])
                          (sorted_missing missing)))]))
         @ [CHR 0x0A]"
  proof -
    have "json_row = (\<lambda>e. JObject [(''published'', JString (isoformat (published e))),
                                           (''title'', JString (title e)),
                                           (''url'', JString (url e)),
                                           (''labels'', JArray (map JString (labels e)))])"
      by (rule ext) (simp only: json_row_def)
    then show ?thesis by (simp only: render_def write_json_def format.case)
  qed
  have ne: "summary_items s \<noteq> []" by (simp add: summary_items_def)
  have j: "prefix
        (''{'' @ newline_indent 1
           @ join ('','' @ newline_indent 1)
               (map (\<lambda>kv. json_string (fst kv) @ '': '' @ dumps_indent 1 (snd kv)) (summary_items s))
           @ '','' @ newline_indent 1 @ json_string ''missing'' @ '': '')
        (render Json s missing)"
    using ne by (simp add: render_def write_json_def join_snoc del: dumps_indent.simps(3))
  have z: "render Csv s missing =
       csv_row [''published'', ''title'', ''url'', ''labels'']
         @ concat (map (\<lambda>e. csv_row [isoformat (published e), title e, url e,
                                      join '','' (labels e)])
                     (sorted_missing missing))"
    by (simp add: render_def write_csv_def csv_fields_def)
  have c: "render Csv s missing = render Csv s' missing"
    by (simp add: render_def)
  have p: "sorted_missing missing = sorted_missing missing' \<longrightarrow>
        render fmt s missing = render fmt s missing'"
    by (simp add: render_def write_text_def write_json_def write_csv_def split: format.splits)
  have si: "summary_items s =
       [(''base_url'', JString (base_url s)),
        (''from'', JString (isoformat (from_date s))),
        (''to'', JString (isoformat (to_date s))),
        (''local_dir'', JString (local_dir s)),
        (''local_count'', JInt (int (local_count s))),
        (''matched_count'', JInt (int (matched_count s))),
        (''missing_count'', JInt (int (missing_count s)))]"
    by (simp only: summary_items_def)
  have m: "main fromiso http a fuel = Exit 0 out \<longrightarrow>
        (\<exists>dir index matched missing.
           arg_local a = Some dir \<and> read_local_urls dir = Inr index
           \<and> outcome (iter_recent_posts fromiso (http (arg_base_url a)) (arg_from a) (arg_to a)
                        150 fuel) = Returned
           \<and> matched = filter (\<lambda>e. entry_matches (set (arg_labels a))
                                      (compile_keywords (arg_title_keywords a))
                                      (compile_keywords (arg_content_keywords a)) e = Inr True)
                          (yielded (iter_recent_posts fromiso (http (arg_base_url a)) (arg_from a)
                                      (arg_to a) 150 fuel))
           \<and> missing = filter (\<lambda>r. url r \<notin> index) matched
           \<and> out = render (arg_format a)
                     \<lparr>base_url = arg_base_url a, from_date = arg_from a, to_date = arg_to a,
                      local_dir = arg_local_dir a, local_count = card index,
                      matched_count = length matched, missing_count = length missing\<rparr>
                     missing)"
    using main_output [of fromiso http a fuel out] unfolding make_summary_def by blast
  have r: "arg_local a = Some dir \<and> read_local_urls dir = Inr index
        \<and> outcome (iter_recent_posts fromiso (http (arg_base_url a)) (arg_from a) (arg_to a)
                     150 fuel) = Returned \<longrightarrow>
        (\<exists>out. main fromiso http a fuel = Exit 0 out)"
    using main_returns [of a dir index fromiso http fuel] by blast
  have so: "sorted (map (\<lambda>x. (published x, url x)) (sorted_missing missing))"
    "mset (sorted_missing missing) = mset missing"
    by (simp_all add: sorted_missing_def)
  have e1: "main fromisoformat_date (\<lambda>base. three_pages) example_args 2 =
     Exit 0
      (''{'' @ [CHR 0x22] @ ''base_url'' @ [CHR 0x22] @ '': '' @ [CHR 0x22] @
         ''http://e.com'' @ [CHR 0x22] @ '', '' @ [CHR 0x22] @ ''from'' @ [CHR 0x22] @
         '': '' @ [CHR 0x22] @ ''2024-03-01'' @ [CHR 0x22] @ '', '' @ [CHR 0x22] @
         ''to'' @ [CHR 0x22] @ '': '' @ [CHR 0x22] @ ''2024-03-31'' @ [CHR 0x22] @
         '', '' @ [CHR 0x22] @ ''local_dir'' @ [CHR 0x22] @ '': '' @ [CHR 0x22] @
         ''articles'' @ [CHR 0x22] @ '', '' @ [CHR 0x22] @ ''local_count'' @
         [CHR 0x22] @ '': 1, '' @ [CHR 0x22] @ ''matched_count'' @ [CHR 0x22] @
         '': 2, '' @ [CHR 0x22] @ ''missing_count'' @ [CHR 0x22] @ '': 1}'' @
         [CHR 0x0A] @ ''2024-03-05'' @ [CHR 0x09] @ ''p2'' @ [CHR 0x09] @
         ''http://e.com/2'' @ [CHR 0x09] @ [CHR 0x0A])"
    by code_simp
  have e2: "main fromisoformat_date (\<lambda>base. three_pages) (example_args\<lparr>arg_format := Json\<rparr>) 2 =
     Exit 0
      (''{'' @ [CHR 0x0A] @ ''  '' @ [CHR 0x22] @ ''base_url'' @ [CHR 0x22] @ '': '' @
         [CHR 0x22] @ ''http://e.com'' @ [CHR 0x22] @ '','' @ [CHR 0x0A] @ ''  '' @
         [CHR 0x22] @ ''from'' @ [CHR 0x22] @ '': '' @ [CHR 0x22] @ ''2024-03-01'' @
         [CHR 0x22] @ '','' @ [CHR 0x0A] @ ''  '' @ [CHR 0x22] @ ''to'' @ [CHR 0x22] @
         '': '' @ [CHR 0x22] @ ''2024-03-31'' @ [CHR 0x22] @ '','' @ [CHR 0x0A] @
         ''  '' @ [CHR 0x22] @ ''local_dir'' @ [CHR 0x22] @ '': '' @ [CHR 0x22] @
         ''articles'' @ [CHR 0x22] @ '','' @ [CHR 0x0A] @ ''  '' @ [CHR 0x22] @
         ''local_count'' @ [CHR 0x22] @ '': 1,'' @ [CHR 0x0A] @ ''  '' @ [CHR 0x22] @
         ''matched_count'' @ [CHR 0x22] @ '': 2,'' @ [CHR 0x0A] @ ''  '' @ [CHR 0x22] @
         ''missing_count'' @ [CHR 0x22] @ '': 1,'' @ [CHR 0x0A] @ ''  '' @ [CHR 0x22] @
         ''missing'' @ [CHR 0x22] @ '': ['' @ [CHR 0x0A] @ ''    {'' @ [CHR 0x0A] @
         ''      '' @ [CHR 0x22] @ ''published'' @ [CHR 0x22] @ '': '' @ [CHR 0x22] @
         ''2024-03-05'' @ [CHR 0x22] @ '','' @ [CHR 0x0A] @ ''      '' @ [CHR 0x22] @
         ''title'' @ [CHR 0x22] @ '': '' @ [CHR 0x22] @ ''p2'' @ [CHR 0x22] @ '','' @
         [CHR 0x0A] @ ''      '' @ [CHR 0x22] @ ''url'' @ [CHR 0x22] @ '': '' @
         [CHR 0x22] @ ''http://e.com/2'' @ [CHR 0x22] @ '','' @ [CHR 0x0A] @
         ''      '' @ [CHR 0x22] @ ''labels'' @ [CHR 0x22] @ '': []'' @ [CHR 0x0A] @
         ''    }'' @ [CHR 0x0A] @ ''  ]'' @ [CHR 0x0A] @ ''}'' @ [CHR 0x0A])"
    by code_simp
  have e3: "main fromisoformat_date (\<lambda>base. three_pages) (example_args\<lparr>arg_format := Csv\<rparr>) 2 =
     Exit 0
      (''published,title,url,labels'' @ [CHR 0x0D] @ [CHR 0x0A] @
         ''2024-03-05,p2,http://e.com/2,'' @ [CHR 0x0D] @ [CHR 0x0A])"
    by code_simp
  show ?thesis
    apply (rule conjI, rule x)
    apply (rule conjI, rule t)
    apply (rule conjI, rule y)
    apply (rule conjI, rule j)
    apply (rule conjI, rule z)
    apply (rule conjI, rule c)
    apply (rule conjI, rule p)
    apply (rule conjI, rule si)
    apply (rule conjI, rule m)
    apply (rule conjI, rule r)
    apply (rule conjI, rule so(1))
    apply (rule conjI, rule so(2))
    apply (rule conjI, rule e1)
    apply (rule conjI, rule e2)
    apply (rule e3)
    done
qed

theorem renderings_project_witness:
  "render Json summary_a [film_post, plain_post] = render Json summary_a [plain_post, film_post]
   \<and> (\<exists>dir index matched missing.
         arg_local example_args = Some dir \<and> read_local_urls dir = Inr index
         \<and> outcome (iter_recent_posts fromisoformat_date three_pages (arg_from example_args)
                      (arg_to example_args) 150 2) = Returned
         \<and> matched = filter (\<lambda>e. entry_matches (set (arg_labels example_args))
                                    (compile_keywords (arg_title_keywords example_args))
                                    (compile_keywords (arg_content_keywords example_args)) e
                                  = Inr True)
                        (yielded (iter_recent_posts fromisoformat_date three_pages
                                    (arg_from example_args) (arg_to example_args) 150 2))
         \<and> missing = filter (\<lambda>r. url r \<notin> index) matched
         \<and> render Text
             \<lparr>base_url = ''http://e.com'', from_date = (2024, 3, 1), to_date = (2024, 3, 31),
              local_dir = ''articles'', local_count = 1, matched_count = 2, missing_count = 1\<rparr>
             [example_post ''p2'' ''http://e.com/2'' (2024, 3, 5)]
           = render (arg_format example_args)
               \<lparr>base_url = arg_base_url example_args, from_date = arg_from example_args,
                to_date = arg_to example_args, local_dir = arg_local_dir example_args,
                local_count = card index, matched_count = length matched,
                missing_count = length missing\<rparr>
               missing)
   \<and> (\<exists>out. main fromisoformat_date (\<lambda>base. three_pages) example_args 2 = Exit 0 out)"
proof -
  have same: "sorted_missing [film_post, plain_post] = sorted_missing [plain_post, film_post]"
    by code_simp
  have c1: "render Json summary_a [film_post, plain_post]
              = render Json summary_a [plain_post, film_post]"
    by (rule mp [OF conjunct1 [OF conjunct2 [OF conjunct2 [OF conjunct2 [OF conjunct2
          [OF conjunct2 [OF conjunct2 [OF renderings_project]]]]]]] same])
  note c2 = mp [OF conjunct1 [OF conjunct2 [OF conjunct2 [OF conjunct2 [OF conjunct2
          [OF conjunct2 [OF conjunct2 [OF conjunct2 [OF conjunct2 [OF renderings_project]]]]]]]]]
          main_example]
  have d: "arg_local example_args = Some example_dir" by (simp add: example_args_def)
  have l: "read_local_urls example_dir = Inr {''http://e.com/1''}" by code_simp
  have o: "outcome (iter_recent_posts fromisoformat_date three_pages (arg_from example_args)
                      (arg_to example_args) 150 2) = Returned"
    by code_simp
  have c3: "\<exists>out. main fromisoformat_date (\<lambda>base. three_pages) example_args 2 = Exit 0 out"
    by (rule mp [OF conjunct1 [OF conjunct2 [OF conjunct2 [OF conjunct2 [OF conjunct2
          [OF conjunct2 [OF conjunct2 [OF conjunct2 [OF conjunct2 [OF conjunct2
          [OF renderings_project]]]]]]]]]] conjI [OF d conjI [OF l o]]])
  from c1 c2 c3 show ?thesis by (intro conjI)
qed

section \<open>Properties of the structural text extractor\<close>


subsection \<open>Claim C7\<close>



section \<open>Properties of the content-acquisition batch\<close>

lemma extract_unreachable:
  "http u = Inl RequestException \<Longrightarrow> extract_article_content http u = Inr None"
  by (simp add: extract_article_content_def get_page_def)

lemma extract_bad_date:
  "http u = Inr soup \<Longrightarrow> sel_date soup = Some date_text \<Longrightarrow> search_date date_text = Some (y, m, d)
     \<Longrightarrow> make_date (digits_value y) (digits_value m) (digits_value d) = Inl e
     \<Longrightarrow> extract_article_content http u = Inl e"
  by (simp add: extract_article_content_def get_page_def Let_def)

subsection \<open>Claim C8\<close>

text \<open>
  C8, as the code has it. Not every failure while extracting an article is isolated: the
  first of two articles has a page whose date header reads \<open>2024-13-45\<close>; \<open>datetime\<close> raises
  a \<open>ValueError\<close> that nothing catches, and the loop ends there with nothing written, though
  the second article alone is fetched, extracted and saved without a failure.
\<close>

theorem crawl_aborts_on_bad_date:
  "crawl_articles site_bad_date (\<lambda>p. True) ''articles'' two_articles \<lparr>files = [], saved_count = 0\<rparr>
     = Aborted ValueError \<lparr>files = [], saved_count = 0\<rparr>
   \<and> written_paths (crawl_articles site_bad_date (\<lambda>p. True) ''articles'' (tl two_articles)
                      \<lparr>files = [], saved_count = 0\<rparr>)
       = [''articles/2024-01-05-Second.md'']"
  by code_simp

text \<open>
  C8, amended. A transport failure (a \<open>RequestException\<close> of the request for the article's
  page) is isolated: the loop goes on with the remaining articles as if the article were
  not in the batch. An exception raised while the content is extracted is not: it ends the
  loop before the remaining articles, with the state reached so far; a date on the page
  that \<open>datetime\<close> refuses is such an exception.
\<close>

theorem crawl_isolation:
  "(http (art_url a) = Inl RequestException \<longrightarrow>
      crawl_articles http writable output_dir (a # rest) st
        = crawl_articles http writable output_dir rest st)
   \<and> (extract_article_content http (art_url a) = Inl e \<longrightarrow>
        crawl_articles http writable output_dir (a # rest) st = Aborted e st)
   \<and> (http u = Inr soup \<and> sel_date soup = Some date_text \<and> search_date date_text = Some (y, m, d)
        \<and> make_date (digits_value y) (digits_value m) (digits_value d) = Inl e' \<longrightarrow>
        extract_article_content http u = Inl e')"
  using extract_unreachable [of http "art_url a"] extract_bad_date [of http u soup date_text y m d e']
  by simp

theorem crawl_isolation_witness:
  "crawl_articles site_unreachable (\<lambda>p. True) ''articles'' two_articles \<lparr>files = [], saved_count = 0\<rparr>
     = crawl_articles site_unreachable (\<lambda>p. True) ''articles'' (tl two_articles)
         \<lparr>files = [], saved_count = 0\<rparr>
   \<and> written_paths (crawl_articles site_unreachable (\<lambda>p. True) ''articles'' two_articles
                      \<lparr>files = [], saved_count = 0\<rparr>)
       = [''articles/2024-01-05-Second.md'']
   \<and> crawl_articles site_bad_date (\<lambda>p. True) ''articles'' two_articles \<lparr>files = [], saved_count = 0\<rparr>
       = Aborted ValueError \<lparr>files = [], saved_count = 0\<rparr>
   \<and> extract_article_content site_bad_date ''http://e.com/2024/01/a.html'' = Inl ValueError"
proof -
  have t: "two_articles = hd two_articles # tl two_articles"
    by (simp add: two_articles_def)
  have down: "site_unreachable (art_url (hd two_articles)) = Inl RequestException"
    by (simp add: site_unreachable_def two_articles_def)
  have bad: "site_bad_date ''http://e.com/2024/01/a.html'' = Inr bad_date_page
      \<and> sel_date bad_date_page = Some ''2024-13-45''
      \<and> search_date ''2024-13-45'' = Some (''2024'', ''13'', ''45'')
      \<and> make_date (digits_value ''2024'') (digits_value ''13'') (digits_value ''45'') = Inl ValueError"
    by code_simp
  have c3: "extract_article_content site_bad_date ''http://e.com/2024/01/a.html'' = Inl ValueError"
    by (rule mp [OF conjunct2 [OF conjunct2 [OF crawl_isolation
          [where http = site_bad_date and u = "''http://e.com/2024/01/a.html''"
             and soup = bad_date_page and date_text = "''2024-13-45''"
             and y = "''2024''" and m = "''13''" and d = "''45''" and e' = ValueError]]] bad])
  have u: "art_url (hd two_articles) = ''http://e.com/2024/01/a.html''"
    by (simp add: two_articles_def)
  have c2: "crawl_articles site_bad_date (\<lambda>p. True) ''articles'' (hd two_articles # tl two_articles)
              \<lparr>files = [], saved_count = 0\<rparr>
            = Aborted ValueError \<lparr>files = [], saved_count = 0\<rparr>"
    by (rule mp [OF conjunct1 [OF conjunct2 [OF crawl_isolation
          [where http = site_bad_date and a = "hd two_articles" and e = ValueError]]]])
       (simp only: u c3)
  have c1: "crawl_articles site_unreachable (\<lambda>p. True) ''articles'' (hd two_articles # tl two_articles)
              \<lparr>files = [], saved_count = 0\<rparr>
            = crawl_articles site_unreachable (\<lambda>p. True) ''articles'' (tl two_articles)
                \<lparr>files = [], saved_count = 0\<rparr>"
    by (rule mp [OF conjunct1 [OF crawl_isolation
          [where http = site_unreachable and a = "hd two_articles"]] down])
  have w: "written_paths (crawl_articles site_unreachable (\<lambda>p. True) ''articles'' (tl two_articles)
                      \<lparr>files = [], saved_count = 0\<rparr>)
       = [''articles/2024-01-05-Second.md'']"
    by code_simp
  from c1 c2 c3 w t show ?thesis by metis
qed

section \<open>Properties of the URL normalizer\<close>



































lemma not_always_safe: "\<not> always_safe CHR ''?''" "\<not> always_safe CHR ''#''"
  by (simp_all add: always_safe_def is_alpha_def is_digit_def less_eq_char_def)








subsection \<open>Claim C2\<close>




end
